theory Spec2Isabelle
  imports Main "HOL-Library.Word" "HOL-Library.Multiset"
begin

section \<open>Wallet message codecs (wallet/messages.go)\<close>

subsection \<open>Wallet versions and errors\<close>

text \<open>
  Modelled from the spec: the type \<^verbatim>\<open>Version\<close> (its declaration is not part of the
  sources at hand). It is an integer type with named constants; the six that
  \<^verbatim>\<open>wallet/messages.go\<close> names are constructors, every other value is
  \<open>OtherVersion\<close>.
\<close>

datatype version = V3R1 | V3R2 | V4R1 | V4R2 | V5R1 | HighLoadV2R2 | OtherVersion int

text \<open>
  Every error value that \<^verbatim>\<open>wallet/messages.go\<close> returns or passes on, as a
  datatype: the errors of the cell primitive, the errors made with \<^verbatim>\<open>fmt.Errorf\<close>
  and \<^verbatim>\<open>ErrBadSignature\<close>. The function \<open>kind_of\<close> reads them as the error kinds
  of the spec (section 7).
\<close>

datatype error =
    ErrNotEnoughBits
  | ErrNotEnoughRefs
  | ErrBitStringOverflow
  | ErrCellRefsOverflow
  | ErrMagicMismatch
  | ErrNotADictionary
  | ErrPayloadV1toV4TooLong
  | ErrPayloadHighloadTooLong
  | ErrReadMsgMode error
  | ErrReadMsg error
  | ErrUnexpectedBits nat
  | ErrNotEnoughBitsInCell
  | ErrVersionNotSupported version
  | ErrBadSignature
  | ErrExternal string

datatype error_kind =
  StructuralDecodeError | CapacityExceeded | UnsupportedGeneration | SignatureMismatch
  | InsufficientBits | OtherError

fun kind_of :: "error \<Rightarrow> error_kind" where
  "kind_of ErrNotEnoughBits = StructuralDecodeError"
| "kind_of ErrNotEnoughRefs = StructuralDecodeError"
| "kind_of ErrMagicMismatch = StructuralDecodeError"
| "kind_of ErrNotADictionary = StructuralDecodeError"
| "kind_of (ErrReadMsgMode e) = StructuralDecodeError"
| "kind_of (ErrReadMsg e) = StructuralDecodeError"
| "kind_of (ErrUnexpectedBits n) = StructuralDecodeError"
| "kind_of ErrBitStringOverflow = CapacityExceeded"
| "kind_of ErrCellRefsOverflow = CapacityExceeded"
| "kind_of ErrPayloadV1toV4TooLong = CapacityExceeded"
| "kind_of ErrPayloadHighloadTooLong = CapacityExceeded"
| "kind_of ErrNotEnoughBitsInCell = InsufficientBits"
| "kind_of (ErrVersionNotSupported v) = UnsupportedGeneration"
| "kind_of ErrBadSignature = SignatureMismatch"
| "kind_of (ErrExternal s) = OtherError"

subsection \<open>Cells\<close>

text \<open>
  Modelled from the spec: the cell primitive \<^verbatim>\<open>boc.Cell\<close> (package \<^verbatim>\<open>boc\<close> is not
  part of the sources at hand). A cell is a bounded bit sequence and an ordered bounded
  list of child cells (spec, section 3 and glossary). The content of a cell is the
  datatype \<open>cell\<close>. A dictionary cell stands for the serialised key-to-value mapping of
  16-bit unsigned keys to cell values (section 4.3); its trie of bits and references is
  not represented, so plain reads see no bits and no references in it.
\<close>

datatype cell =
    Cell (cbits: "bool list") (crefs: "cell list")
  | Dict (items: "(16 word \<times> cell) list")
where
  "cbits (Dict kvs) = []"
| "crefs (Dict kvs) = []"
| "items (Cell bs rs) = []"

text \<open>
  Modelled from the spec: a cell while it is written or read, \<^verbatim>\<open>*boc.Cell\<close> with its
  two read cursors (bits read so far, references taken so far).
\<close>

record cellst =
  bits :: "bool list"
  refs :: "cell list"
  rdCursor :: nat
  refCursor :: nat

text \<open>Modelled from the spec: the capacities of a cell (1023 bits, 4 references).\<close>

definition CellBits :: nat where
  "CellBits = 1023"

definition CellRefs :: nat where
  "CellRefs = 4"

text \<open>Modelled from the spec: \<^verbatim>\<open>boc.NewCell()\<close>, an empty cell with both cursors at 0.\<close>

definition NewCell :: cellst where
  "NewCell = \<lparr>bits = [], refs = [], rdCursor = 0, refCursor = 0\<rparr>"

text \<open>
  Modelled from the spec: a child cell is read from its start (\<^verbatim>\<open>NextRef\<close> hands out
  the child with its cursors reset); a finished cell is stored by its content.
\<close>

definition open_cell :: "cell \<Rightarrow> cellst" where
  "open_cell c = \<lparr>bits = cbits c, refs = crefs c, rdCursor = 0, refCursor = 0\<rparr>"

definition content :: "cellst \<Rightarrow> cell" where
  "content c = Cell (bits c) (refs c)"

text \<open>Modelled from the spec: \<^verbatim>\<open>BitsAvailableForRead\<close> and \<^verbatim>\<open>RefsSize\<close>.\<close>

definition BitsAvailableForRead :: "cellst \<Rightarrow> nat" where
  "BitsAvailableForRead c = length (bits c) - rdCursor c"

definition RefsSize :: "cellst \<Rightarrow> nat" where
  "RefsSize c = length (refs c)"

text \<open>
  Modelled from the spec: bounded bit reads. \<^verbatim>\<open>ReadBits n\<close> returns the next \<open>n\<close> bits
  and advances the cursor, or fails (cell untouched) when fewer are left.
  \<^verbatim>\<open>ReadUint n\<close> reads them as an unsigned integer, most significant bit first
  (section 6); \<^verbatim>\<open>ReadBytes n\<close> reads \<open>8 * n\<close> bits.
\<close>

definition ReadBits :: "cellst \<Rightarrow> nat \<Rightarrow> error + (bool list \<times> cellst)" where
  "ReadBits c n =
     (if BitsAvailableForRead c < n then Inl ErrNotEnoughBits
      else Inr (take n (drop (rdCursor c) (bits c)), c\<lparr>rdCursor := rdCursor c + n\<rparr>))"

definition uint_of_bits :: "bool list \<Rightarrow> 64 word" where
  "uint_of_bits bs = horner_sum of_bool 2 (rev bs)"

definition bits_of_uint :: "64 word \<Rightarrow> nat \<Rightarrow> bool list" where
  "bits_of_uint v n = rev (map (bit v) [0..<n])"

definition ReadUint :: "cellst \<Rightarrow> nat \<Rightarrow> error + (64 word \<times> cellst)" where
  "ReadUint c n =
     (case ReadBits c n of
        Inl e \<Rightarrow> Inl e
      | Inr (bs, c') \<Rightarrow> Inr (uint_of_bits bs, c'))"

definition ReadBytes :: "cellst \<Rightarrow> nat \<Rightarrow> error + (bool list \<times> cellst)" where
  "ReadBytes c n = ReadBits c (8 * n)"

text \<open>
  Modelled from the spec: bounded child traversal. \<^verbatim>\<open>NextRef\<close> returns the next
  child not taken yet and advances the reference cursor, or fails (cell untouched) when
  none is left.
\<close>

definition NextRef :: "cellst \<Rightarrow> error + (cell \<times> cellst)" where
  "NextRef c =
     (if refCursor c < length (refs c)
      then Inr (refs c ! refCursor c, c\<lparr>refCursor := refCursor c + 1\<rparr>)
      else Inl ErrNotEnoughRefs)"

text \<open>
  Modelled from the spec: bounded writes. Bits are appended while the cell holds at most
  \<open>CellBits\<close> of them, a child while it holds fewer than \<open>CellRefs\<close>; a write
  that does not fit fails and leaves the cell as it was.
\<close>

definition WriteBitString :: "cellst \<Rightarrow> bool list \<Rightarrow> error + cellst" where
  "WriteBitString c bs =
     (if length (bits c) + length bs > CellBits then Inl ErrBitStringOverflow
      else Inr (c\<lparr>bits := bits c @ bs\<rparr>))"

definition WriteUint :: "cellst \<Rightarrow> 64 word \<Rightarrow> nat \<Rightarrow> error + cellst" where
  "WriteUint c v n = WriteBitString c (bits_of_uint v n)"

definition WriteBit :: "cellst \<Rightarrow> bool \<Rightarrow> error + cellst" where
  "WriteBit c b = WriteBitString c [b]"

definition AddRef :: "cellst \<Rightarrow> cell \<Rightarrow> error + cellst" where
  "AddRef c r =
     (if length (refs c) < CellRefs then Inr (c\<lparr>refs := refs c @ [r]\<rparr>)
      else Inl ErrCellRefsOverflow)"

subsection \<open>Raw messages and the fixed-slot payload (PayloadV1toV4)\<close>

record RawMessage =
  Message :: cell
  Mode :: "8 word"

type_synonym PayloadV1toV4 = "RawMessage list"
type_synonym PayloadHighload = "RawMessage list"

text \<open>
  The body of the loop of \<^verbatim>\<open>PayloadV1toV4.MarshalTLB\<close>: mode as 8 bits, then the
  message as a child. The cell is returned with the error, as the Go method leaves it.
\<close>

fun write_messages :: "RawMessage list \<Rightarrow> cellst \<Rightarrow> error option \<times> cellst" where
  "write_messages [] c = (None, c)"
| "write_messages (msg # p) c =
     (case WriteUint c (ucast (Mode msg)) 8 of
        Inl err \<Rightarrow> (Some err, c)
      | Inr c1 \<Rightarrow>
          (case AddRef c1 (Message msg) of
             Inl err \<Rightarrow> (Some err, c1)
           | Inr c2 \<Rightarrow> write_messages p c2))"

definition PayloadV1toV4_MarshalTLB :: "PayloadV1toV4 \<Rightarrow> cellst \<Rightarrow> error option \<times> cellst" where
  "PayloadV1toV4_MarshalTLB p c =
     (if length p > 4 then (Some ErrPayloadV1toV4TooLong, c)
      else write_messages p c)"

text \<open>
  \<^verbatim>\<open>PayloadV1toV4.UnmarshalTLB\<close>: the loop takes a child, then 8 bits of mode, and
  appends to \<open>p\<close>; a failing \<^verbatim>\<open>NextRef\<close> leaves the loop and the method returns
  \<^verbatim>\<open>nil\<close>, a failing \<^verbatim>\<open>ReadUint\<close> is returned. The result holds the error, the list
  \<open>p\<close> and the cell as the method leaves them.
\<close>

function PayloadV1toV4_UnmarshalTLB ::
  "PayloadV1toV4 \<Rightarrow> cellst \<Rightarrow> error option \<times> PayloadV1toV4 \<times> cellst" where
  "PayloadV1toV4_UnmarshalTLB p c =
     (case NextRef c of
        Inl err \<Rightarrow> (None, p, c)
      | Inr (ref, c1) \<Rightarrow>
          (case ReadUint c1 8 of
             Inl err \<Rightarrow> (Some err, p, c1)
           | Inr (mode, c2) \<Rightarrow>
               PayloadV1toV4_UnmarshalTLB (p @ [\<lparr>Message = ref, Mode = ucast mode\<rparr>]) c2))"
  by pat_completeness auto
termination
  by (relation "measure (\<lambda>(p, c). length (refs c) - refCursor c)")
     (auto simp: NextRef_def ReadUint_def ReadBits_def split: if_splits sum.splits)

text \<open>
  The bits that the loop of \<^verbatim>\<open>PayloadV1toV4.MarshalTLB\<close> writes for a list: 8 bits of
  mode per entry (section 6), used to state the layout.
\<close>

definition enc_bits :: "RawMessage list \<Rightarrow> bool list" where
  "enc_bits p = concat (map (\<lambda>m. bits_of_uint (ucast (Mode m)) 8) p)"

subsection \<open>The dictionary payload (PayloadHighload)\<close>

text \<open>
  Modelled from the spec: the dictionary \<^verbatim>\<open>tlb.Hashmap[tlb.Uint16, tlb.Any]\<close> and its
  codec (package \<^verbatim>\<open>tlb\<close> is not part of the sources at hand). A dictionary is a
  mapping of 16-bit unsigned keys to cell values. \<^verbatim>\<open>NewHashmap\<close> pairs keys with
  values; \<^verbatim>\<open>tlb.Marshal\<close> of it fills a dictionary cell; \<^verbatim>\<open>Items\<close> lists the
  entries by ascending key (section 4.3).
\<close>

type_synonym Hashmap = "(16 word \<times> cell) list"

definition NewHashmap :: "16 word list \<Rightarrow> cell list \<Rightarrow> Hashmap" where
  "NewHashmap keys values = zip keys values"

definition Marshal_Hashmap :: "Hashmap \<Rightarrow> error + cell" where
  "Marshal_Hashmap hashmap = Inr (Dict hashmap)"

definition Items :: "Hashmap \<Rightarrow> (16 word \<times> cell) list" where
  "Items m = sort_key fst m"

text \<open>
  Modelled from the spec: decoding \<^verbatim>\<open>tlb.HashmapE\<close> from the payload cell: one marker
  bit, which must be true, then one reference to a dictionary cell (section 4.3).
\<close>

definition Unmarshal_HashmapE :: "cellst \<Rightarrow> (error + Hashmap) \<times> cellst" where
  "Unmarshal_HashmapE c =
     (case ReadBits c 1 of
        Inl err \<Rightarrow> (Inl err, c)
      | Inr (marker, c1) \<Rightarrow>
          if marker \<noteq> [True] then (Inl ErrNotADictionary, c1)
          else (case NextRef c1 of
                  Inl err \<Rightarrow> (Inl err, c1)
                | Inr (dict, c2) \<Rightarrow>
                    (case dict of
                       Dict m \<Rightarrow> (Inr m, c2)
                     | Cell bs rs \<Rightarrow> (Inl ErrNotADictionary, c2))))"

text \<open>
  The first loop of \<^verbatim>\<open>PayloadHighload.MarshalTLB\<close>: entry \<open>i\<close> becomes the key
  \<^verbatim>\<open>tlb.Uint16(i)\<close> and a fresh value cell holding the mode and the message.
\<close>

fun build_entries ::
  "nat \<Rightarrow> RawMessage list \<Rightarrow> 16 word list \<Rightarrow> cell list \<Rightarrow> error + (16 word list \<times> cell list)" where
  "build_entries i [] keys values = Inr (keys, values)"
| "build_entries i (msg # p) keys values =
     (case WriteUint NewCell (ucast (Mode msg)) 8 of
        Inl err \<Rightarrow> Inl err
      | Inr cell1 \<Rightarrow>
          (case AddRef cell1 (Message msg) of
             Inl err \<Rightarrow> Inl err
           | Inr cell2 \<Rightarrow>
               build_entries (i + 1) p (keys @ [of_nat i]) (values @ [content cell2])))"

definition PayloadHighload_MarshalTLB :: "PayloadHighload \<Rightarrow> cellst \<Rightarrow> error option \<times> cellst" where
  "PayloadHighload_MarshalTLB p c =
     (if length p > 254 then (Some ErrPayloadHighloadTooLong, c)
      else
        (case build_entries 0 p [] [] of
           Inl err \<Rightarrow> (Some err, c)
         | Inr (keys, values) \<Rightarrow>
             (case Marshal_Hashmap (NewHashmap keys values) of
                Inl err \<Rightarrow> (Some err, c)
              | Inr dict \<Rightarrow>
                  (case WriteBit c True of
                     Inl err \<Rightarrow> (Some err, c)
                   | Inr c1 \<Rightarrow>
                       (case AddRef c1 dict of
                          Inl err \<Rightarrow> (Some err, c1)
                        | Inr c2 \<Rightarrow> (None, c2))))))"

text \<open>
  The loop of \<^verbatim>\<open>PayloadHighload.UnmarshalTLB\<close> over \<^verbatim>\<open>m.Items()\<close>: each value cell
  is read from its start, 8 bits of mode and one child.
\<close>

fun read_items :: "(16 word \<times> cell) list \<Rightarrow> RawMessage list \<Rightarrow> error + RawMessage list" where
  "read_items [] rawMessages = Inr rawMessages"
| "read_items (item # its) rawMessages =
     (case ReadUint (open_cell (snd item)) 8 of
        Inl err \<Rightarrow> Inl (ErrReadMsgMode err)
      | Inr (mode, cell1) \<Rightarrow>
          (case NextRef cell1 of
             Inl err \<Rightarrow> Inl (ErrReadMsg err)
           | Inr (msg, cell2) \<Rightarrow>
               read_items its (rawMessages @ [\<lparr>Message = msg, Mode = ucast mode\<rparr>])))"

text \<open>\<open>*p\<close> is replaced on success only.\<close>

definition PayloadHighload_UnmarshalTLB ::
  "PayloadHighload \<Rightarrow> cellst \<Rightarrow> error option \<times> PayloadHighload \<times> cellst" where
  "PayloadHighload_UnmarshalTLB p c =
     (case Unmarshal_HashmapE c of
        (Inl err, c1) \<Rightarrow> (Some err, p, c1)
      | (Inr m, c1) \<Rightarrow>
          (case read_items (Items m) [] of
             Inl err \<Rightarrow> (Some err, p, c1)
           | Inr rawMessages \<Rightarrow> (None, rawMessages, c1)))"

text \<open>
  The value cell that the first loop of \<^verbatim>\<open>PayloadHighload.MarshalTLB\<close> builds for an
  entry: 8 bits of mode and the message as the only reference.
\<close>

definition value_cell :: "RawMessage \<Rightarrow> cell" where
  "value_cell msg = Cell (bits_of_uint (ucast (Mode msg)) 8) [Message msg]"

text \<open>What one dictionary entry decodes to when its value cell is well formed.\<close>

definition entry_message :: "16 word \<times> cell \<Rightarrow> RawMessage" where
  "entry_message item =
     \<lparr>Message = hd (crefs (snd item)), Mode = ucast (uint_of_bits (take 8 (cbits (snd item))))\<rparr>"

subsection \<open>The action chain (SendMessageList)\<close>

record SendMessageAction =
  Magic :: "32 word"
  ActionMode :: "8 word"
  Msg :: cell

definition SendMessageAction_Magic :: "32 word" where
  "SendMessageAction_Magic = 0x0ec3c86d"

text \<open>
  Modelled from the spec: the reflective decoding of \<^verbatim>\<open>SendMessageAction\<close> by
  \<^verbatim>\<open>decoder.Unmarshal\<close>, field by field as the struct tags say: a 32-bit tag that must
  equal \<^verbatim>\<open>0x0ec3c86d\<close>, 8 bits of mode, and the next child of the cell as the message
  (section 4.4).
\<close>

definition Unmarshal_SendMessageAction :: "cellst \<Rightarrow> error + (SendMessageAction \<times> cellst)" where
  "Unmarshal_SendMessageAction c =
     (case ReadUint c 32 of
        Inl err \<Rightarrow> Inl err
      | Inr (magic, c1) \<Rightarrow>
          if ucast magic \<noteq> SendMessageAction_Magic then Inl ErrMagicMismatch
          else (case ReadUint c1 8 of
                  Inl err \<Rightarrow> Inl err
                | Inr (mode, c2) \<Rightarrow>
                    (case NextRef c2 of
                       Inl err \<Rightarrow> Inl err
                     | Inr (msg, c3) \<Rightarrow>
                         Inr (\<lparr>Magic = ucast magic, ActionMode = ucast mode, Msg = msg\<rparr>, c3))))"

text \<open>
  One turn of the loop of \<^verbatim>\<open>SendMessageList.UnmarshalTLB\<close>: the \<^verbatim>\<open>switch\<close> on the
  bits left either returns (\<open>Inl\<close>, with the result of the method) or goes on with
  the grown list and \<^verbatim>\<open>c = next\<close> (\<open>Inr\<close>). The list \<open>actions\<close> is the local
  variable of the method, empty when the method is entered; the method gives the error
  or the list that it stores in \<^verbatim>\<open>l.Actions\<close>.
\<close>

definition chain_step ::
  "SendMessageAction list \<Rightarrow> cellst \<Rightarrow>
   (error + SendMessageAction list) + (SendMessageAction list \<times> cell)" where
  "chain_step actions c =
     (if BitsAvailableForRead c = 0 then Inl (Inr actions)
      else if BitsAvailableForRead c = 40 then
        (case NextRef c of
           Inl err \<Rightarrow> Inl (Inl err)
         | Inr (next, c1) \<Rightarrow>
             (case Unmarshal_SendMessageAction c1 of
                Inl err \<Rightarrow> Inl (Inl err)
              | Inr (action, c2) \<Rightarrow> Inr (actions @ [action], next)))
      else Inl (Inl (ErrUnexpectedBits (BitsAvailableForRead c))))"

function SendMessageList_UnmarshalTLB ::
  "SendMessageAction list \<Rightarrow> cellst \<Rightarrow> error + SendMessageAction list" where
  "SendMessageList_UnmarshalTLB actions c =
     (case chain_step actions c of
        Inl result \<Rightarrow> result
      | Inr (actions', next) \<Rightarrow> SendMessageList_UnmarshalTLB actions' (open_cell next))"
  by pat_completeness auto
termination
proof -
  have child: "next \<in> set (refs c)"
    if "chain_step actions c = Inr (actions', next)" for actions c actions' "next"
    using that by (auto simp: chain_step_def NextRef_def split: if_splits sum.splits)
  have less: "size_list size (crefs r) < size_list size rs" if "r \<in> set rs" for r rs
  proof -
    have "size_list size (crefs r) < size r"
      by (cases r) simp_all
    moreover have "size r \<le> size_list size rs"
      using that by (simp add: size_list_estimation')
    ultimately show ?thesis by simp
  qed
  show ?thesis
    by (relation "measure (\<lambda>(actions, c). size_list size (refs c))")
       (auto dest!: child simp: open_cell_def less)
qed

text \<open>
  The same loop with a bound on the number of turns: \<open>None\<close> when the bound is used
  up before the loop returns.
\<close>

fun chain_fuel ::
  "nat \<Rightarrow> SendMessageAction list \<Rightarrow> cellst \<Rightarrow> (error + SendMessageAction list) option" where
  "chain_fuel 0 actions c = None"
| "chain_fuel (Suc n) actions c =
     (case chain_step actions c of
        Inl result \<Rightarrow> Some result
      | Inr (actions', next) \<Rightarrow> chain_fuel n actions' (open_cell next))"

text \<open>The depth of a cell tree: the longest path of references below the cell.\<close>

fun height :: "cell \<Rightarrow> nat" where
  "height (Cell bs rs) = fold max (map (\<lambda>r. Suc (height r)) rs) 0"
| "height (Dict kvs) = 0"

text \<open>
  The layout of a chain (section 6): a node holds the 32-bit tag and the 8-bit mode of its
  action, its first reference is the rest of the chain and its second the message; the
  last node is an empty cell.
\<close>

definition action_bits :: "8 word \<Rightarrow> bool list" where
  "action_bits mode = bits_of_uint (ucast SendMessageAction_Magic) 32 @ bits_of_uint (ucast mode) 8"

fun chain_cells :: "SendMessageAction list \<Rightarrow> cell" where
  "chain_cells [] = Cell [] []"
| "chain_cells (a # as) = Cell (action_bits (ActionMode a)) [chain_cells as, Msg a]"

subsection \<open>Signatures\<close>

text \<open>
  The content hash of a cell and the verification of an Ed25519 signature are taken as
  parameters \<open>Hash\<close> and \<open>Verify\<close> (\<^verbatim>\<open>Cell.Hash\<close> and \<^verbatim>\<open>ed25519.Verify\<close>): keys,
  hashes and signatures are lists of bytes.
\<close>

type_synonym bytes = "8 word list"

definition bytes_of_bits :: "bool list \<Rightarrow> bytes" where
  "bytes_of_bits bs =
     map (\<lambda>i. ucast (uint_of_bits (take 8 (drop (8 * i) bs)))) [0..<length bs div 8]"

record SignedMsgBody =
  BodySign :: bytes
  BodyMessage :: cell

definition SignedMsgBody_Verify ::
  "(cell \<Rightarrow> error + bytes) \<Rightarrow> (bytes \<Rightarrow> bytes \<Rightarrow> bytes \<Rightarrow> bool) \<Rightarrow>
   SignedMsgBody \<Rightarrow> bytes \<Rightarrow> error option" where
  "SignedMsgBody_Verify Hash Verify body publicKey =
     (case Hash (BodyMessage body) of
        Inl err \<Rightarrow> Some err
      | Inr hash \<Rightarrow>
          if Verify publicKey hash (BodySign body) then None else Some ErrBadSignature)"

text \<open>
  The loop of \<^verbatim>\<open>MessageV5VerifySignature\<close> that moves the children of \<open>msgBody\<close> to
  \<open>msgCopy\<close>: \<open>i\<close> runs up to \<^verbatim>\<open>msgBody.RefsSize()\<close>. The result holds the error or
  the copy, and \<open>msgBody\<close> as the loop leaves it.
\<close>

function copy_refs :: "nat \<Rightarrow> cellst \<Rightarrow> cellst \<Rightarrow> (error + cellst) \<times> cellst" where
  "copy_refs i msgBody msgCopy =
     (if i < RefsSize msgBody then
        (case NextRef msgBody of
           Inl err \<Rightarrow> (Inl err, msgBody)
         | Inr (ref, msgBody1) \<Rightarrow>
             (case AddRef msgCopy ref of
                Inl err \<Rightarrow> (Inl err, msgBody1)
              | Inr msgCopy1 \<Rightarrow> copy_refs (i + 1) msgBody1 msgCopy1))
      else (Inr msgCopy, msgBody))"
  by pat_completeness auto
termination
  by (relation "measure (\<lambda>(i, msgBody, msgCopy). RefsSize msgBody - i)")
     (auto simp: NextRef_def RefsSize_def split: if_splits)

text \<open>
  \<^verbatim>\<open>MessageV5VerifySignature\<close>. The result holds the error and the local cell
  \<open>msgBody\<close> as the function leaves it, which shows how far the cell was read.
\<close>

definition MessageV5VerifySignature ::
  "(cell \<Rightarrow> error + bytes) \<Rightarrow> (bytes \<Rightarrow> bytes \<Rightarrow> bytes \<Rightarrow> bool) \<Rightarrow>
   cellst \<Rightarrow> bytes \<Rightarrow> error option \<times> cellst" where
  "MessageV5VerifySignature Hash Verify msgBody publicKey =
     (let totalBits = BitsAvailableForRead msgBody in
      if totalBits < 512 then (Some ErrNotEnoughBitsInCell, msgBody)
      else
        (case ReadBits msgBody (totalBits - 512) of
           Inl err \<Rightarrow> (Some err, msgBody)
         | Inr (bits0, msgBody1) \<Rightarrow>
             (case ReadBytes msgBody1 64 of
                Inl err \<Rightarrow> (Some err, msgBody1)
              | Inr (signature, msgBody2) \<Rightarrow>
                  (case WriteBitString NewCell bits0 of
                     Inl err \<Rightarrow> (Some err, msgBody2)
                   | Inr msgCopy \<Rightarrow>
                       (case copy_refs 0 msgBody2 msgCopy of
                          (Inl err, msgBody3) \<Rightarrow> (Some err, msgBody3)
                        | (Inr msgCopy1, msgBody3) \<Rightarrow>
                            (case Hash (content msgCopy1) of
                               Inl err \<Rightarrow> (Some err, msgBody3)
                             | Inr hash \<Rightarrow>
                                 if Verify publicKey hash (bytes_of_bits signature)
                                 then (None, msgBody3)
                                 else (Some ErrBadSignature, msgBody3)))))))"

subsection \<open>Envelopes and dispatch\<close>

text \<open>
  Modelled from the spec: \<^verbatim>\<open>tlb.Any\<close> takes everything not read yet, bits and
  children, as a cell of its own.
\<close>

definition CopyRemaining :: "cellst \<Rightarrow> cell" where
  "CopyRemaining c = Cell (drop (rdCursor c) (bits c)) (drop (refCursor c) (refs c))"

text \<open>
  Modelled from the spec: the reflective decoding of \<^verbatim>\<open>SignedMsgBody\<close>: 512 bits of
  signature, then the payload inline in the same cell (section 4.1).
\<close>

definition Unmarshal_SignedMsgBody :: "cellst \<Rightarrow> error + SignedMsgBody" where
  "Unmarshal_SignedMsgBody c =
     (case ReadBytes c 64 of
        Inl err \<Rightarrow> Inl err
      | Inr (sign, c1) \<Rightarrow>
          Inr \<lparr>BodySign = bytes_of_bits sign, BodyMessage = CopyRemaining c1\<rparr>)"

text \<open>
  The decoding of the outer \<^verbatim>\<open>tlb.Message\<close> is the parameter \<open>Unmarshal_Message\<close>:
  from the message cell it gives the body cell \<^verbatim>\<open>m.Body.Value\<close> or an error, and the
  message cell as it leaves it.
\<close>

type_synonym message_decoder = "cellst \<Rightarrow> (error + cell) \<times> cellst"

definition extractSignedMsgBody :: "message_decoder \<Rightarrow> cellst \<Rightarrow> (error + SignedMsgBody) \<times> cellst" where
  "extractSignedMsgBody Unmarshal_Message msg =
     (case Unmarshal_Message msg of
        (Inl err, msg1) \<Rightarrow> (Inl err, msg1)
      | (Inr bodyCell, msg1) \<Rightarrow> (Unmarshal_SignedMsgBody (open_cell bodyCell), msg1))"

record MessageV3 =
  V3SubWalletId :: "32 word"
  V3ValidUntil :: "32 word"
  V3Seqno :: "32 word"
  V3RawMessages :: PayloadV1toV4

record MessageV4 =
  V4SubWalletId :: "32 word"
  V4ValidUntil :: "32 word"
  V4Seqno :: "32 word"
  V4Op :: "8 word"
  V4RawMessages :: PayloadV1toV4

record HighloadV2Message =
  HLSubWalletId :: "32 word"
  HLBoundedQueryID :: "64 word"
  HLRawMessages :: PayloadHighload

record SendMessageList =
  Actions :: "SendMessageAction list"

record MessageV5Body =
  V5SubWalletId :: "bool list"
  V5ValidUntil :: "32 word"
  V5Seqno :: "32 word"
  V5Op :: bool
  V5Signature :: bytes
  V5Actions :: SendMessageList

record MessageV5 =
  SumType :: string
  Sint :: MessageV5Body
  Sign :: MessageV5Body

text \<open>
  Modelled from the spec: the reflective decoding of the four message structs, field by
  field with the widths of section 6.
\<close>

definition decodeMessageV3 :: "SignedMsgBody \<Rightarrow> error + MessageV3" where
  "decodeMessageV3 body =
     (case ReadUint (open_cell (BodyMessage body)) 32 of
        Inl err \<Rightarrow> Inl err
      | Inr (subWalletId, c1) \<Rightarrow>
     (case ReadUint c1 32 of
        Inl err \<Rightarrow> Inl err
      | Inr (validUntil, c2) \<Rightarrow>
     (case ReadUint c2 32 of
        Inl err \<Rightarrow> Inl err
      | Inr (seqno, c3) \<Rightarrow>
     (case PayloadV1toV4_UnmarshalTLB [] c3 of
        (Some err, p, c4) \<Rightarrow> Inl err
      | (None, p, c4) \<Rightarrow>
          Inr \<lparr>V3SubWalletId = ucast subWalletId, V3ValidUntil = ucast validUntil,
               V3Seqno = ucast seqno, V3RawMessages = p\<rparr>))))"

definition decodeMessageV4 :: "SignedMsgBody \<Rightarrow> error + MessageV4" where
  "decodeMessageV4 body =
     (case ReadUint (open_cell (BodyMessage body)) 32 of
        Inl err \<Rightarrow> Inl err
      | Inr (subWalletId, c1) \<Rightarrow>
     (case ReadUint c1 32 of
        Inl err \<Rightarrow> Inl err
      | Inr (validUntil, c2) \<Rightarrow>
     (case ReadUint c2 32 of
        Inl err \<Rightarrow> Inl err
      | Inr (seqno, c3) \<Rightarrow>
     (case ReadUint c3 8 of
        Inl err \<Rightarrow> Inl err
      | Inr (op, c4) \<Rightarrow>
     (case PayloadV1toV4_UnmarshalTLB [] c4 of
        (Some err, p, c5) \<Rightarrow> Inl err
      | (None, p, c5) \<Rightarrow>
          Inr \<lparr>V4SubWalletId = ucast subWalletId, V4ValidUntil = ucast validUntil,
               V4Seqno = ucast seqno, V4Op = ucast op, V4RawMessages = p\<rparr>)))))"

definition decodeHighloadV2Message :: "SignedMsgBody \<Rightarrow> error + HighloadV2Message" where
  "decodeHighloadV2Message body =
     (case ReadUint (open_cell (BodyMessage body)) 32 of
        Inl err \<Rightarrow> Inl err
      | Inr (subWalletId, c1) \<Rightarrow>
     (case ReadUint c1 64 of
        Inl err \<Rightarrow> Inl err
      | Inr (queryId, c2) \<Rightarrow>
     (case PayloadHighload_UnmarshalTLB [] c2 of
        (Some err, p, c3) \<Rightarrow> Inl err
      | (None, p, c3) \<Rightarrow>
          Inr \<lparr>HLSubWalletId = ucast subWalletId, HLBoundedQueryID = queryId,
               HLRawMessages = p\<rparr>)))"

definition Unmarshal_MessageV5Body :: "cellst \<Rightarrow> error + MessageV5Body" where
  "Unmarshal_MessageV5Body c =
     (case ReadBits c 80 of
        Inl err \<Rightarrow> Inl err
      | Inr (subWalletId, c1) \<Rightarrow>
     (case ReadUint c1 32 of
        Inl err \<Rightarrow> Inl err
      | Inr (validUntil, c2) \<Rightarrow>
     (case ReadUint c2 32 of
        Inl err \<Rightarrow> Inl err
      | Inr (seqno, c3) \<Rightarrow>
     (case ReadBits c3 1 of
        Inl err \<Rightarrow> Inl err
      | Inr (op, c4) \<Rightarrow>
     (case ReadBytes c4 64 of
        Inl err \<Rightarrow> Inl err
      | Inr (signature, c5) \<Rightarrow>
     (case NextRef c5 of
        Inl err \<Rightarrow> Inl err
      | Inr (head, c6) \<Rightarrow>
     (case SendMessageList_UnmarshalTLB [] (open_cell head) of
        Inl err \<Rightarrow> Inl err
      | Inr actions \<Rightarrow>
          Inr \<lparr>V5SubWalletId = subWalletId, V5ValidUntil = ucast validUntil,
               V5Seqno = ucast seqno, V5Op = (op = [True]),
               V5Signature = bytes_of_bits signature,
               V5Actions = \<lparr>Actions = actions\<rparr>\<rparr>)))))))"

definition zero_MessageV5Body :: MessageV5Body where
  "zero_MessageV5Body =
     \<lparr>V5SubWalletId = replicate 80 False, V5ValidUntil = 0, V5Seqno = 0, V5Op = False,
      V5Signature = replicate 64 0, V5Actions = \<lparr>Actions = []\<rparr>\<rparr>"

definition Unmarshal_MessageV5 :: "cellst \<Rightarrow> error + MessageV5" where
  "Unmarshal_MessageV5 c =
     (case ReadUint c 32 of
        Inl err \<Rightarrow> Inl err
      | Inr (tag, c1) \<Rightarrow>
          if tag = 0x73696e74 then
            (case Unmarshal_MessageV5Body c1 of
               Inl err \<Rightarrow> Inl err
             | Inr b \<Rightarrow> Inr \<lparr>SumType = ''Sint'', Sint = b, Sign = zero_MessageV5Body\<rparr>)
          else if tag = 0x7369676e then
            (case Unmarshal_MessageV5Body c1 of
               Inl err \<Rightarrow> Inl err
             | Inr b \<Rightarrow> Inr \<lparr>SumType = ''Sign'', Sint = zero_MessageV5Body, Sign = b\<rparr>)
          else Inl ErrMagicMismatch)"

definition DecodeMessageV5 :: "message_decoder \<Rightarrow> cellst \<Rightarrow> (error + MessageV5) \<times> cellst" where
  "DecodeMessageV5 Unmarshal_Message msg =
     (case Unmarshal_Message msg of
        (Inl err, msg1) \<Rightarrow> (Inl err, msg1)
      | (Inr bodyCell, msg1) \<Rightarrow> (Unmarshal_MessageV5 (open_cell bodyCell), msg1))"

definition DecodeMessageV4 :: "message_decoder \<Rightarrow> cellst \<Rightarrow> (error + MessageV4) \<times> cellst" where
  "DecodeMessageV4 Unmarshal_Message msg =
     (case extractSignedMsgBody Unmarshal_Message msg of
        (Inl err, msg1) \<Rightarrow> (Inl err, msg1)
      | (Inr signedMsgBody, msg1) \<Rightarrow> (decodeMessageV4 signedMsgBody, msg1))"

definition DecodeMessageV3 :: "message_decoder \<Rightarrow> cellst \<Rightarrow> (error + MessageV3) \<times> cellst" where
  "DecodeMessageV3 Unmarshal_Message msg =
     (case extractSignedMsgBody Unmarshal_Message msg of
        (Inl err, msg1) \<Rightarrow> (Inl err, msg1)
      | (Inr signedMsgBody, msg1) \<Rightarrow> (decodeMessageV3 signedMsgBody, msg1))"

definition DecodeHighloadV2Message ::
  "message_decoder \<Rightarrow> cellst \<Rightarrow> (error + HighloadV2Message) \<times> cellst" where
  "DecodeHighloadV2Message Unmarshal_Message msg =
     (case extractSignedMsgBody Unmarshal_Message msg of
        (Inl err, msg1) \<Rightarrow> (Inl err, msg1)
      | (Inr signedMsgBody, msg1) \<Rightarrow> (decodeHighloadV2Message signedMsgBody, msg1))"

definition action_message :: "SendMessageAction \<Rightarrow> RawMessage" where
  "action_message action = \<lparr>Message = Msg action, Mode = ActionMode action\<rparr>"

definition RawMessages :: "MessageV5 \<Rightarrow> RawMessage list" where
  "RawMessages m =
     (if SumType m = ''Sint'' then map action_message (Actions (V5Actions (Sint m)))
      else if SumType m = ''Sign'' then map action_message (Actions (V5Actions (Sign m)))
      else [])"

text \<open>
  \<^verbatim>\<open>ExtractRawMessages\<close>: the result and the message cell as the function leaves it.
\<close>

definition ExtractRawMessages ::
  "message_decoder \<Rightarrow> version \<Rightarrow> cellst \<Rightarrow> (error + RawMessage list) \<times> cellst" where
  "ExtractRawMessages Unmarshal_Message ver msg =
     (if ver = V5R1 then
        (case DecodeMessageV5 Unmarshal_Message msg of
           (Inl err, msg1) \<Rightarrow> (Inl err, msg1)
         | (Inr v5, msg1) \<Rightarrow> (Inr (RawMessages v5), msg1))
      else if ver = V4R1 \<or> ver = V4R2 then
        (case DecodeMessageV4 Unmarshal_Message msg of
           (Inl err, msg1) \<Rightarrow> (Inl err, msg1)
         | (Inr v4, msg1) \<Rightarrow> (Inr (V4RawMessages v4), msg1))
      else if ver = V3R1 \<or> ver = V3R2 then
        (case DecodeMessageV3 Unmarshal_Message msg of
           (Inl err, msg1) \<Rightarrow> (Inl err, msg1)
         | (Inr v3, msg1) \<Rightarrow> (Inr (V3RawMessages v3), msg1))
      else if ver = HighLoadV2R2 then
        (case DecodeHighloadV2Message Unmarshal_Message msg of
           (Inl err, msg1) \<Rightarrow> (Inl err, msg1)
         | (Inr hl, msg1) \<Rightarrow> (Inr (HLRawMessages hl), msg1))
      else (Inl (ErrVersionNotSupported ver), msg))"

text \<open>\<^verbatim>\<open>VerifySignature\<close>: the error, and the message cell as the function leaves it.\<close>

definition VerifySignature ::
  "message_decoder \<Rightarrow> (cell \<Rightarrow> error + bytes) \<Rightarrow> (bytes \<Rightarrow> bytes \<Rightarrow> bytes \<Rightarrow> bool) \<Rightarrow>
   version \<Rightarrow> cellst \<Rightarrow> bytes \<Rightarrow> error option \<times> cellst" where
  "VerifySignature Unmarshal_Message Hash Verify ver msg publicKey =
     (if ver = V3R1 \<or> ver = V3R2 \<or> ver = V4R1 \<or> ver = V4R2 \<or> ver = HighLoadV2R2 then
        (case extractSignedMsgBody Unmarshal_Message msg of
           (Inl err, msg1) \<Rightarrow> (Some err, msg1)
         | (Inr signedMsgBody, msg1) \<Rightarrow>
             (SignedMsgBody_Verify Hash Verify signedMsgBody publicKey, msg1))
      else (Some (ErrVersionNotSupported ver), msg))"

section \<open>Properties\<close>

subsection \<open>Capacity, dispatch and signature errors\<close>

text \<open>
  Claim C4. Encoding a list of 5 or more entries with the fixed-slot codec, or of 255 or
  more entries with the dictionary codec, fails with a capacity error, and the target
  cell is returned as it was given: the length is checked before anything is written.
\<close>

theorem capacity_exceeded:
  "(5 \<le> length p \<longrightarrow>
      PayloadV1toV4_MarshalTLB p c = (Some ErrPayloadV1toV4TooLong, c)) \<and>
   (255 \<le> length q \<longrightarrow>
      PayloadHighload_MarshalTLB q c = (Some ErrPayloadHighloadTooLong, c)) \<and>
   kind_of ErrPayloadV1toV4TooLong = CapacityExceeded \<and>
   kind_of ErrPayloadHighloadTooLong = CapacityExceeded"
  by (simp add: PayloadV1toV4_MarshalTLB_def PayloadHighload_MarshalTLB_def)

theorem capacity_exceeded_witness:
  "5 \<le> length (replicate 5 \<lparr>Message = Cell [] [], Mode = 3\<rparr>) \<and>
   PayloadV1toV4_MarshalTLB (replicate 5 \<lparr>Message = Cell [] [], Mode = 3\<rparr>) NewCell
     = (Some ErrPayloadV1toV4TooLong, NewCell) \<and>
   255 \<le> length (replicate 255 \<lparr>Message = Cell [] [], Mode = 3\<rparr>) \<and>
   PayloadHighload_MarshalTLB (replicate 255 \<lparr>Message = Cell [] [], Mode = 3\<rparr>) NewCell
     = (Some ErrPayloadHighloadTooLong, NewCell)"
  using capacity_exceeded [of "replicate 5 \<lparr>Message = Cell [] [], Mode = 3\<rparr>" NewCell
      "replicate 255 \<lparr>Message = Cell [] [], Mode = 3\<rparr>"]
  by simp

text \<open>
  Claim C8. For a wallet version outside V3R1, V3R2, V4R1, V4R2, V5R1 and HighLoadV2R2,
  \<^verbatim>\<open>ExtractRawMessages\<close> returns the error "wallet version is not supported" whatever
  the message decoder is, and the message cell keeps its bits, its references and both
  read cursors.
\<close>

theorem unsupported_generation:
  "ver \<notin> {V3R1, V3R2, V4R1, V4R2, V5R1, HighLoadV2R2} \<Longrightarrow>
   ExtractRawMessages Unmarshal_Message ver msg = (Inl (ErrVersionNotSupported ver), msg) \<and>
   kind_of (ErrVersionNotSupported ver) = UnsupportedGeneration"
  by (simp add: ExtractRawMessages_def)

theorem unsupported_generation_witness:
  "OtherVersion 7 \<notin> {V3R1, V3R2, V4R1, V4R2, V5R1, HighLoadV2R2} \<and>
   ExtractRawMessages (\<lambda>c. (Inr (Cell [] []), c\<lparr>rdCursor := 1\<rparr>)) (OtherVersion 7)
       \<lparr>bits = [True, False], refs = [Cell [] []], rdCursor = 0, refCursor = 0\<rparr>
     = (Inl (ErrVersionNotSupported (OtherVersion 7)),
        \<lparr>bits = [True, False], refs = [Cell [] []], rdCursor = 0, refCursor = 0\<rparr>)"
  using unsupported_generation [of "OtherVersion 7" "\<lambda>c. (Inr (Cell [] []), c\<lparr>rdCursor := 1\<rparr>)"
      "\<lparr>bits = [True, False], refs = [Cell [] []], rdCursor = 0, refCursor = 0\<rparr>"]
  by simp

lemma copy_refs_all:
  "refCursor msgBody = i \<Longrightarrow> length (refs msgBody) - i = k \<Longrightarrow> i \<le> length (refs msgBody) \<Longrightarrow>
   length (refs msgCopy) + k \<le> CellRefs \<Longrightarrow>
   copy_refs i msgBody msgCopy
     = (Inr (msgCopy\<lparr>refs := refs msgCopy @ drop i (refs msgBody)\<rparr>),
        msgBody\<lparr>refCursor := length (refs msgBody)\<rparr>)"
  supply copy_refs.simps [simp del]
proof (induction k arbitrary: i msgBody msgCopy)
  case 0
  then have i: "\<not> i < RefsSize msgBody"
    by (simp add: RefsSize_def)
  from 0 have "msgBody\<lparr>refCursor := length (refs msgBody)\<rparr> = msgBody"
    by simp
  moreover from 0 have "drop i (refs msgBody) = []"
    by simp
  ultimately show ?case
    using i by (simp add: copy_refs.simps [of i msgBody msgCopy])
next
  case (Suc k)
  let ?b1 = "msgBody\<lparr>refCursor := refCursor msgBody + 1\<rparr>"
  let ?c1 = "msgCopy\<lparr>refs := refs msgCopy @ [refs msgBody ! i]\<rparr>"
  from Suc.prems have lt: "i < length (refs msgBody)" by simp
  have nr: "NextRef msgBody = Inr (refs msgBody ! i, ?b1)"
    using Suc.prems lt by (simp add: NextRef_def)
  have ar: "AddRef msgCopy (refs msgBody ! i) = Inr ?c1"
    using Suc.prems by (simp add: AddRef_def)
  have ih: "copy_refs (i + 1) ?b1 ?c1
      = (Inr (?c1\<lparr>refs := refs ?c1 @ drop (i + 1) (refs ?b1)\<rparr>),
         ?b1\<lparr>refCursor := length (refs ?b1)\<rparr>)"
    using Suc.prems lt by (intro Suc.IH) simp_all
  have dr: "drop i (refs msgBody) = refs msgBody ! i # drop (i + 1) (refs msgBody)"
    using lt by (simp add: Cons_nth_drop_Suc)
  have "copy_refs i msgBody msgCopy = copy_refs (i + 1) ?b1 ?c1"
    using lt by (simp add: copy_refs.simps [of i msgBody msgCopy] RefsSize_def nr ar)
  also note ih
  also have "(Inr (?c1\<lparr>refs := refs ?c1 @ drop (i + 1) (refs ?b1)\<rparr>),
         ?b1\<lparr>refCursor := length (refs ?b1)\<rparr>)
      = (Inr (msgCopy\<lparr>refs := refs msgCopy @ drop i (refs msgBody)\<rparr>),
         msgBody\<lparr>refCursor := length (refs msgBody)\<rparr>)"
    by (simp add: dr)
  finally show ?case .
qed

lemma v5_strip_trailing:
  assumes n: "512 \<le> BitsAvailableForRead msgBody"
    and cap: "BitsAvailableForRead msgBody - 512 \<le> CellBits"
    and rc: "refCursor msgBody = 0"
    and rs: "length (refs msgBody) \<le> CellRefs"
  shows "MessageV5VerifySignature Hash Verify msgBody publicKey =
     (case Hash (Cell (take (BitsAvailableForRead msgBody - 512) (drop (rdCursor msgBody) (bits msgBody)))
                      (refs msgBody)) of
        Inl err \<Rightarrow> Some err
      | Inr hash \<Rightarrow>
          if Verify publicKey hash (bytes_of_bits (drop (length (bits msgBody) - 512) (bits msgBody)))
          then None else Some ErrBadSignature,
      msgBody\<lparr>rdCursor := length (bits msgBody), refCursor := length (refs msgBody)\<rparr>)"
proof -
  let ?n = "BitsAvailableForRead msgBody"
  let ?body = "take (?n - 512) (drop (rdCursor msgBody) (bits msgBody))"
  let ?b1 = "msgBody\<lparr>rdCursor := rdCursor msgBody + (?n - 512)\<rparr>"
  let ?b2 = "?b1\<lparr>rdCursor := rdCursor msgBody + (?n - 512) + 8 * 64\<rparr>"
  let ?copy = "NewCell\<lparr>bits := bits NewCell @ ?body\<rparr>"
  from n have le: "rdCursor msgBody + 512 \<le> length (bits msgBody)"
    by (simp add: BitsAvailableForRead_def)
  have nn: "?n = length (bits msgBody) - rdCursor msgBody"
    by (simp add: BitsAvailableForRead_def)
  have pos: "rdCursor msgBody + (?n - 512) = length (bits msgBody) - 512"
    using le by (simp add: nn)
  have r1: "ReadBits msgBody (?n - 512) = Inr (?body, ?b1)"
    by (simp add: ReadBits_def)
  have av1: "BitsAvailableForRead ?b1 = 512"
    using le by (simp add: BitsAvailableForRead_def)
  have sig: "take 512 (drop (rdCursor ?b1) (bits ?b1)) = drop (length (bits msgBody) - 512) (bits msgBody)"
    using le by (simp add: pos)
  have r2: "ReadBytes ?b1 64 = Inr (drop (length (bits msgBody) - 512) (bits msgBody), ?b2)"
    unfolding ReadBytes_def ReadBits_def using av1 sig by simp
  have lb: "length ?body = ?n - 512"
    using le by (simp add: nn)
  have w: "WriteBitString NewCell ?body = Inr ?copy"
    using cap lb by (simp add: WriteBitString_def NewCell_def)
  have cp: "copy_refs 0 ?b2 ?copy
      = (Inr (?copy\<lparr>refs := refs ?copy @ drop 0 (refs ?b2)\<rparr>), ?b2\<lparr>refCursor := length (refs ?b2)\<rparr>)"
    using rc rs by (intro copy_refs_all [where k = "length (refs msgBody)"]) (simp_all add: NewCell_def)
  have ct: "content (?copy\<lparr>refs := refs ?copy @ drop 0 (refs ?b2)\<rparr>) = Cell ?body (refs msgBody)"
    by (simp add: content_def NewCell_def)
  have fin: "?b2\<lparr>refCursor := length (refs ?b2)\<rparr>
      = msgBody\<lparr>rdCursor := length (bits msgBody), refCursor := length (refs msgBody)\<rparr>"
    using le by (simp add: nn)
  have ge: "\<not> ?n < 512"
    using n by simp
  show ?thesis
    unfolding MessageV5VerifySignature_def Let_def
    by (simp only: ge r1 r2 w cp ct fin sum.case prod.case if_False)
       (simp split: sum.splits)
qed

text \<open>
  Claim C7, as stated, fails in its second part: a cell whose signature is cut to 511 bits
  is not always refused for lack of bits. Here the cell holds 177 bits of header, 511
  bits of signature and one reference, 688 bits in all; \<^verbatim>\<open>MessageV5VerifySignature\<close>
  reads it to the end, takes the last 512 bits as the signature and, with a signature
  check that fails, returns \<^verbatim>\<open>ErrBadSignature\<close>.
\<close>

theorem v5_truncated_signature_counterexample:
  "MessageV5VerifySignature (\<lambda>c. Inr []) (\<lambda>k h s. False)
       \<lparr>bits = replicate 177 False @ replicate 511 True, refs = [Cell [] []],
        rdCursor = 0, refCursor = 0\<rparr> []
     = (Some ErrBadSignature,
        \<lparr>bits = replicate 177 False @ replicate 511 True, refs = [Cell [] []],
         rdCursor = 688, refCursor = 1\<rparr>) \<and>
   kind_of ErrBadSignature = SignatureMismatch"
proof -
  let ?c = "\<lparr>bits = replicate 177 False @ replicate 511 True, refs = [Cell [] []],
      rdCursor = 0, refCursor = 0\<rparr>"
  have "MessageV5VerifySignature (\<lambda>c. Inr []) (\<lambda>k h s. False) ?c []
      = (Some ErrBadSignature, ?c\<lparr>rdCursor := length (bits ?c), refCursor := length (refs ?c)\<rparr>)"
    by (subst v5_strip_trailing)
       (simp_all add: BitsAvailableForRead_def CellBits_def CellRefs_def)
  then show ?thesis
    by simp
qed

text \<open>
  Claim C7, amended. On a cell with fewer than 512 bits left to read,
  \<^verbatim>\<open>MessageV5VerifySignature\<close> returns the error "not enough bits in the cell" whatever
  the hash and the signature check are, so never a signature mismatch, and the cell is
  left unread; a cell whose signature is cut to 511 bits is refused this way when it has
  fewer than 512 bits to read in all. A cell with 512 bits or more to read, none of its
  references taken yet, is read to the end: the last 512 bits are the signature, the bits
  before them and all the references are hashed, and the result is the error of the hash,
  success, or a signature mismatch.
\<close>

theorem v5_insufficient_bits:
  "(BitsAvailableForRead msgBody < 512 \<longrightarrow>
      MessageV5VerifySignature Hash Verify msgBody publicKey
        = (Some ErrNotEnoughBitsInCell, msgBody)) \<and>
   kind_of ErrNotEnoughBitsInCell = InsufficientBits \<and>
   (512 \<le> BitsAvailableForRead msgBody \<and> BitsAvailableForRead msgBody - 512 \<le> CellBits \<and>
    refCursor msgBody = 0 \<and> length (refs msgBody) \<le> CellRefs \<longrightarrow>
      MessageV5VerifySignature Hash Verify msgBody publicKey =
        (case Hash (Cell (take (BitsAvailableForRead msgBody - 512)
                            (drop (rdCursor msgBody) (bits msgBody)))
                         (refs msgBody)) of
           Inl err \<Rightarrow> Some err
         | Inr hash \<Rightarrow>
             if Verify publicKey hash
                  (bytes_of_bits (drop (length (bits msgBody) - 512) (bits msgBody)))
             then None else Some ErrBadSignature,
         msgBody\<lparr>rdCursor := length (bits msgBody), refCursor := length (refs msgBody)\<rparr>))"
proof -
  have "MessageV5VerifySignature Hash Verify msgBody publicKey
      = (Some ErrNotEnoughBitsInCell, msgBody)"
    if "BitsAvailableForRead msgBody < 512"
    using that by (simp add: MessageV5VerifySignature_def)
  then show ?thesis
    using v5_strip_trailing [of msgBody Hash Verify publicKey] by simp
qed

theorem v5_insufficient_bits_witness:
  "BitsAvailableForRead \<lparr>bits = replicate 511 True, refs = [], rdCursor = 0, refCursor = 0\<rparr> < 512 \<and>
   MessageV5VerifySignature (\<lambda>c. Inr []) (\<lambda>k h s. False)
       \<lparr>bits = replicate 511 True, refs = [], rdCursor = 0, refCursor = 0\<rparr> []
     = (Some ErrNotEnoughBitsInCell,
        \<lparr>bits = replicate 511 True, refs = [], rdCursor = 0, refCursor = 0\<rparr>) \<and>
   512 \<le> BitsAvailableForRead
       \<lparr>bits = replicate 688 True, refs = [Cell [] []], rdCursor = 0, refCursor = 0\<rparr> \<and>
   MessageV5VerifySignature (\<lambda>c. Inr []) (\<lambda>k h s. True)
       \<lparr>bits = replicate 688 True, refs = [Cell [] []], rdCursor = 0, refCursor = 0\<rparr> []
     = (None, \<lparr>bits = replicate 688 True, refs = [Cell [] []], rdCursor = 688, refCursor = 1\<rparr>)"
proof -
  let ?short = "\<lparr>bits = replicate 511 True, refs = [], rdCursor = 0, refCursor = 0\<rparr>"
  let ?full = "\<lparr>bits = replicate 688 True, refs = [Cell [] []], rdCursor = 0, refCursor = 0\<rparr>"
  have s: "BitsAvailableForRead ?short < 512"
    by (simp add: BitsAvailableForRead_def)
  have f: "512 \<le> BitsAvailableForRead ?full" "BitsAvailableForRead ?full - 512 \<le> CellBits"
    "refCursor ?full = 0" "length (refs ?full) \<le> CellRefs"
    by (simp_all add: BitsAvailableForRead_def CellBits_def CellRefs_def)
  from v5_insufficient_bits [of ?short "\<lambda>c. Inr []" "\<lambda>k h s. False" "[]"] s
  have r1: "MessageV5VerifySignature (\<lambda>c. Inr []) (\<lambda>k h s. False) ?short []
      = (Some ErrNotEnoughBitsInCell, ?short)"
    by blast
  from v5_insufficient_bits [of ?full "\<lambda>c. Inr []" "\<lambda>k h s. True" "[]"] f
  have "MessageV5VerifySignature (\<lambda>c. Inr []) (\<lambda>k h s. True) ?full []
      = (case (Inr [] :: error + bytes) of Inl err \<Rightarrow> Some err
         | Inr hash \<Rightarrow> if True then None else Some ErrBadSignature,
         ?full\<lparr>rdCursor := length (bits ?full), refCursor := length (refs ?full)\<rparr>)"
    by blast
  then have r2: "MessageV5VerifySignature (\<lambda>c. Inr []) (\<lambda>k h s. True) ?full []
      = (None, \<lparr>bits = replicate 688 True, refs = [Cell [] []], rdCursor = 688, refCursor = 1\<rparr>)"
    by simp
  from s r1 f(1) r2 show ?thesis
    by blast
qed

subsection \<open>Fixed-slot decoding of malformed cells\<close>

text \<open>
  Claim C5, as stated, fails: a payload cell with bits left to read and no reference
  left is decoded without error. Here the cell holds one bit and no child, and
  \<^verbatim>\<open>PayloadV1toV4.UnmarshalTLB\<close> returns no error and the empty list.
\<close>

theorem fixed_slot_decode_counterexample:
  "0 < BitsAvailableForRead \<lparr>bits = [True], refs = [], rdCursor = 0, refCursor = 0\<rparr> \<and>
   NextRef \<lparr>bits = [True], refs = [], rdCursor = 0, refCursor = 0\<rparr> = Inl ErrNotEnoughRefs \<and>
   PayloadV1toV4_UnmarshalTLB [] \<lparr>bits = [True], refs = [], rdCursor = 0, refCursor = 0\<rparr>
     = (None, [], \<lparr>bits = [True], refs = [], rdCursor = 0, refCursor = 0\<rparr>)"
  by (simp add: BitsAvailableForRead_def NextRef_def)

text \<open>
  Claim C5, amended. When no reference is left, \<^verbatim>\<open>PayloadV1toV4.UnmarshalTLB\<close> returns
  without error, with the list as it stands and whatever bits are left unread. When a
  reference is left and fewer than 8 bits are, it fails with the bit reader's error,
  after taking the reference.
\<close>

theorem fixed_slot_decode_errors:
  "(length (refs c) \<le> refCursor c \<longrightarrow> PayloadV1toV4_UnmarshalTLB p c = (None, p, c)) \<and>
   (refCursor c < length (refs c) \<and> BitsAvailableForRead c < 8 \<longrightarrow>
      PayloadV1toV4_UnmarshalTLB p c = (Some ErrNotEnoughBits, p, c\<lparr>refCursor := refCursor c + 1\<rparr>)) \<and>
   kind_of ErrNotEnoughBits = StructuralDecodeError"
  by (simp add: NextRef_def ReadUint_def ReadBits_def BitsAvailableForRead_def)

theorem fixed_slot_decode_errors_witness:
  "length (refs \<lparr>bits = [True, True], refs = [], rdCursor = 0, refCursor = 0\<rparr>)
     \<le> refCursor \<lparr>bits = [True, True], refs = [], rdCursor = 0, refCursor = 0\<rparr> \<and>
   PayloadV1toV4_UnmarshalTLB [] \<lparr>bits = [True, True], refs = [], rdCursor = 0, refCursor = 0\<rparr>
     = (None, [], \<lparr>bits = [True, True], refs = [], rdCursor = 0, refCursor = 0\<rparr>) \<and>
   refCursor \<lparr>bits = replicate 7 True, refs = [Cell [] []], rdCursor = 0, refCursor = 0\<rparr>
     < length (refs \<lparr>bits = replicate 7 True, refs = [Cell [] []], rdCursor = 0, refCursor = 0\<rparr>) \<and>
   BitsAvailableForRead \<lparr>bits = replicate 7 True, refs = [Cell [] []], rdCursor = 0, refCursor = 0\<rparr> < 8 \<and>
   PayloadV1toV4_UnmarshalTLB [] \<lparr>bits = replicate 7 True, refs = [Cell [] []], rdCursor = 0, refCursor = 0\<rparr>
     = (Some ErrNotEnoughBits, [],
        \<lparr>bits = replicate 7 True, refs = [Cell [] []], rdCursor = 0, refCursor = 1\<rparr>)"
  using fixed_slot_decode_errors [of "\<lparr>bits = [True, True], refs = [], rdCursor = 0, refCursor = 0\<rparr>" "[]"]
    fixed_slot_decode_errors [of "\<lparr>bits = replicate 7 True, refs = [Cell [] []], rdCursor = 0, refCursor = 0\<rparr>" "[]"]
  by (simp add: BitsAvailableForRead_def)

subsection \<open>The generic verification entry point\<close>

text \<open>
  Claim C6. \<^verbatim>\<open>VerifySignature\<close> returns the error "wallet version is not supported"
  for V5R1, and for every version other than V3R1, V3R2, V4R1, V4R2 and HighLoadV2R2,
  whatever the decoder, the hash and the signature check are: no verification scheme runs.
  For those five versions it is the whole-body check of the signed envelope. In the
  example a cell that \<^verbatim>\<open>MessageV5VerifySignature\<close> accepts is refused for V5R1.
\<close>

theorem verify_signature_dispatch:
  "VerifySignature Unmarshal_Message Hash Verify V5R1 msg publicKey
     = (Some (ErrVersionNotSupported V5R1), msg) \<and>
   kind_of (ErrVersionNotSupported V5R1) = UnsupportedGeneration \<and>
   (ver \<notin> {V3R1, V3R2, V4R1, V4R2, HighLoadV2R2} \<longrightarrow>
      VerifySignature Unmarshal_Message Hash Verify ver msg publicKey
        = (Some (ErrVersionNotSupported ver), msg)) \<and>
   (ver \<in> {V3R1, V3R2, V4R1, V4R2, HighLoadV2R2} \<longrightarrow>
      VerifySignature Unmarshal_Message Hash Verify ver msg publicKey
        = (case extractSignedMsgBody Unmarshal_Message msg of
             (Inl err, msg1) \<Rightarrow> (Some err, msg1)
           | (Inr signedMsgBody, msg1) \<Rightarrow>
               (SignedMsgBody_Verify Hash Verify signedMsgBody publicKey, msg1)))"
  by (simp add: VerifySignature_def)

theorem verify_signature_dispatch_witness:
  "fst (MessageV5VerifySignature (\<lambda>c. Inr []) (\<lambda>k h s. True)
        \<lparr>bits = replicate 600 True, refs = [Cell [] []], rdCursor = 0, refCursor = 0\<rparr> []) = None \<and>
   VerifySignature (\<lambda>c. (Inr (Cell (replicate 600 True) [Cell [] []]), c)) (\<lambda>c. Inr []) (\<lambda>k h s. True) V5R1
        \<lparr>bits = replicate 600 True, refs = [Cell [] []], rdCursor = 0, refCursor = 0\<rparr> []
     = (Some (ErrVersionNotSupported V5R1),
        \<lparr>bits = replicate 600 True, refs = [Cell [] []], rdCursor = 0, refCursor = 0\<rparr>) \<and>
   OtherVersion 1 \<notin> {V3R1, V3R2, V4R1, V4R2, HighLoadV2R2} \<and>
   fst (VerifySignature (\<lambda>c. (Inr (Cell (replicate 600 True) [Cell [] []]), c)) (\<lambda>c. Inr []) (\<lambda>k h s. True)
        (OtherVersion 1)
        \<lparr>bits = replicate 600 True, refs = [Cell [] []], rdCursor = 0, refCursor = 0\<rparr> [])
     = Some (ErrVersionNotSupported (OtherVersion 1)) \<and>
   V3R1 \<in> {V3R1, V3R2, V4R1, V4R2, HighLoadV2R2} \<and>
   fst (VerifySignature (\<lambda>c. (Inr (Cell (replicate 600 True) [Cell [] []]), c)) (\<lambda>c. Inr []) (\<lambda>k h s. True) V3R1
        \<lparr>bits = replicate 600 True, refs = [Cell [] []], rdCursor = 0, refCursor = 0\<rparr> [])
     = None"
  using verify_signature_dispatch [of "\<lambda>c. (Inr (Cell (replicate 600 True) [Cell [] []]), c)"
      "\<lambda>c. Inr []" "\<lambda>k h s. True"
      "\<lparr>bits = replicate 600 True, refs = [Cell [] []], rdCursor = 0, refCursor = 0\<rparr>" "[]" "OtherVersion 1"]
    verify_signature_dispatch [of "\<lambda>c. (Inr (Cell (replicate 600 True) [Cell [] []]), c)"
      "\<lambda>c. Inr []" "\<lambda>k h s. True"
      "\<lparr>bits = replicate 600 True, refs = [Cell [] []], rdCursor = 0, refCursor = 0\<rparr>" "[]" "V3R1"]
  by (simp add: MessageV5VerifySignature_def BitsAvailableForRead_def ReadBits_def ReadBytes_def
      WriteBitString_def NewCell_def CellBits_def RefsSize_def NextRef_def AddRef_def CellRefs_def
      extractSignedMsgBody_def Unmarshal_SignedMsgBody_def open_cell_def SignedMsgBody_Verify_def)

subsection \<open>Round trip of the fixed-slot codec\<close>

lemma ucast_take_bit8: "ucast (take_bit 8 (ucast m :: 64 word)) = (m :: 8 word)"
  by (rule bit_word_eqI) (auto simp: bit_simps)

lemma uint_roundtrip8: "ucast (uint_of_bits (bits_of_uint (ucast m) 8)) = (m :: 8 word)"
proof -
  have "uint_of_bits (bits_of_uint (ucast m) 8) = take_bit 8 (ucast m :: 64 word)"
    by (simp add: uint_of_bits_def bits_of_uint_def horner_sum_bit_eq_take_bit del: upt_Suc)
  then show ?thesis
    by (simp only: ucast_take_bit8)
qed

lemma length_bits_of_uint: "length (bits_of_uint v n) = n"
  by (simp add: bits_of_uint_def)

lemma length_enc_bits: "length (enc_bits p) = 8 * length p"
  by (induction p) (simp_all add: enc_bits_def length_bits_of_uint)

lemma write_messages_ok:
  "length (bits c) + 8 * length p \<le> CellBits \<Longrightarrow> length (refs c) + length p \<le> CellRefs \<Longrightarrow>
   write_messages p c = (None, c\<lparr>bits := bits c @ enc_bits p, refs := refs c @ map Message p\<rparr>)"
proof (induction p arbitrary: c)
  case Nil
  then show ?case by (simp add: enc_bits_def)
next
  case (Cons m p)
  let ?c1 = "c\<lparr>bits := bits c @ bits_of_uint (ucast (Mode m)) 8\<rparr>"
  let ?c2 = "?c1\<lparr>refs := refs c @ [Message m]\<rparr>"
  have w: "WriteUint c (ucast (Mode m)) 8 = Inr ?c1"
    using Cons.prems by (simp add: WriteUint_def WriteBitString_def length_bits_of_uint)
  have a: "AddRef ?c1 (Message m) = Inr ?c2"
    using Cons.prems by (simp add: AddRef_def)
  have "write_messages p ?c2 = (None, ?c2\<lparr>bits := bits ?c2 @ enc_bits p, refs := refs ?c2 @ map Message p\<rparr>)"
    using Cons.prems by (intro Cons.IH) (simp_all add: length_bits_of_uint)
  then show ?case
    by (simp add: w a enc_bits_def)
qed

lemma unmarshal_enc:
  "drop (rdCursor c) (bits c) = enc_bits p @ rest \<Longrightarrow> drop (refCursor c) (refs c) = map Message p \<Longrightarrow>
   PayloadV1toV4_UnmarshalTLB acc c =
     (None, acc @ p, c\<lparr>rdCursor := rdCursor c + 8 * length p, refCursor := refCursor c + length p\<rparr>)"
proof (induction p arbitrary: c acc)
  case Nil
  then have "NextRef c = Inl ErrNotEnoughRefs"
    by (simp add: NextRef_def)
  then show ?case by simp
next
  case (Cons m p)
  let ?c1 = "c\<lparr>refCursor := refCursor c + 1\<rparr>"
  let ?c2 = "?c1\<lparr>rdCursor := rdCursor c + 8\<rparr>"
  from Cons.prems(2) have lt: "refCursor c < length (refs c)"
    by (metis drop_eq_Nil2 list.map_disc_iff list.distinct(1) not_le_imp_less)
  from Cons.prems(2) have hd: "refs c ! refCursor c = Message m"
    by (metis lt hd_drop_conv_nth list.sel(1) list.simps(9))
  have tl: "drop (refCursor c + 1) (refs c) = map Message p"
    using Cons.prems(2) by (metis Suc_eq_plus1 drop_Suc list.sel(3) list.simps(9) tl_drop)
  have nr: "NextRef c = Inr (Message m, ?c1)"
    using lt hd by (simp add: NextRef_def)
  have eb: "enc_bits (m # p) = bits_of_uint (ucast (Mode m)) 8 @ enc_bits p"
    by (simp add: enc_bits_def)
  have av: "\<not> BitsAvailableForRead ?c1 < 8"
  proof -
    have "length (drop (rdCursor c) (bits c)) \<ge> 8"
      using Cons.prems(1) by (simp add: eb length_bits_of_uint)
    then show ?thesis by (simp add: BitsAvailableForRead_def)
  qed
  have tk: "take 8 (drop (rdCursor c) (bits c)) = bits_of_uint (ucast (Mode m)) 8"
    using Cons.prems(1) by (simp add: eb length_bits_of_uint)
  have dr: "drop (rdCursor c + 8) (bits c) = enc_bits p @ rest"
  proof -
    have "drop 8 (drop (rdCursor c) (bits c)) = enc_bits p @ rest"
      using Cons.prems(1) by (simp add: eb length_bits_of_uint)
    then show ?thesis by (simp add: add.commute)
  qed
  have ru: "ReadUint ?c1 8 = Inr (uint_of_bits (bits_of_uint (ucast (Mode m)) 8), ?c2)"
    using av tk by (simp add: ReadUint_def ReadBits_def)
  have ih: "PayloadV1toV4_UnmarshalTLB (acc @ [\<lparr>Message = Message m, Mode = Mode m\<rparr>]) ?c2 =
     (None, (acc @ [\<lparr>Message = Message m, Mode = Mode m\<rparr>]) @ p,
      ?c2\<lparr>rdCursor := rdCursor ?c2 + 8 * length p, refCursor := refCursor ?c2 + length p\<rparr>)"
    using dr tl by (intro Cons.IH) simp_all
  show ?case
    apply (subst PayloadV1toV4_UnmarshalTLB.simps)
    apply (simp only: nr ru sum.case prod.case uint_roundtrip8)
    apply (simp only: ih)
    apply simp
    done
qed

text \<open>
  Claim C1. For a list of at most 4 raw messages, \<^verbatim>\<open>PayloadV1toV4.MarshalTLB\<close> into a
  fresh cell succeeds and writes 8 bits of mode and one reference per entry, in order;
  \<^verbatim>\<open>PayloadV1toV4.UnmarshalTLB\<close> of that cell, started on the empty list, succeeds
  and gives the same list back, every mode and message cell in its place.
\<close>

theorem simple_codec_roundtrip:
  "length p \<le> 4 \<Longrightarrow>
   PayloadV1toV4_MarshalTLB p NewCell
     = (None, \<lparr>bits = enc_bits p, refs = map Message p, rdCursor = 0, refCursor = 0\<rparr>) \<and>
   PayloadV1toV4_UnmarshalTLB [] (snd (PayloadV1toV4_MarshalTLB p NewCell))
     = (None, p, \<lparr>bits = enc_bits p, refs = map Message p,
                  rdCursor = 8 * length p, refCursor = length p\<rparr>)"
proof -
  assume len: "length p \<le> 4"
  let ?c = "\<lparr>bits = enc_bits p, refs = map Message p, rdCursor = 0, refCursor = 0\<rparr>"
  have "write_messages p NewCell
      = (None, NewCell\<lparr>bits := bits NewCell @ enc_bits p, refs := refs NewCell @ map Message p\<rparr>)"
    using len by (intro write_messages_ok) (simp_all add: NewCell_def CellBits_def CellRefs_def)
  then have m: "PayloadV1toV4_MarshalTLB p NewCell = (None, ?c)"
    using len by (simp add: PayloadV1toV4_MarshalTLB_def NewCell_def)
  have "PayloadV1toV4_UnmarshalTLB [] ?c
      = (None, [] @ p, ?c\<lparr>rdCursor := rdCursor ?c + 8 * length p, refCursor := refCursor ?c + length p\<rparr>)"
    by (rule unmarshal_enc [where rest = "[]"]) simp_all
  then show ?thesis
    by (simp add: m)
qed

theorem simple_codec_roundtrip_witness:
  "length [\<lparr>Message = Cell [True] [], Mode = 3\<rparr>, \<lparr>Message = Cell [] [Cell [] []], Mode = 128\<rparr>] \<le> 4 \<and>
   fst (snd (PayloadV1toV4_UnmarshalTLB []
     (snd (PayloadV1toV4_MarshalTLB
        [\<lparr>Message = Cell [True] [], Mode = 3\<rparr>, \<lparr>Message = Cell [] [Cell [] []], Mode = 128\<rparr>] NewCell))))
    = [\<lparr>Message = Cell [True] [], Mode = 3\<rparr>, \<lparr>Message = Cell [] [Cell [] []], Mode = 128\<rparr>]"
proof -
  have len: "length [\<lparr>Message = Cell [True] [], Mode = 3\<rparr>,
      \<lparr>Message = Cell [] [Cell [] []], Mode = (128 :: 8 word)\<rparr>] \<le> 4"
    by simp
  from simple_codec_roundtrip [OF len, THEN conjunct2] len show ?thesis
    by (simp only: fst_conv snd_conv)
qed

subsection \<open>Decoding of the action chain\<close>

declare SendMessageList_UnmarshalTLB.simps [simp del]

lemma uint_of_bits_of_uint: "uint_of_bits (bits_of_uint v n) = take_bit n v"
  by (simp add: uint_of_bits_def bits_of_uint_def horner_sum_bit_eq_take_bit)

lemma length_action_bits: "length (action_bits mode) = 40"
  by (simp add: action_bits_def length_bits_of_uint)

lemma ucast_take_bit32: "ucast (take_bit 32 (ucast m :: 64 word)) = (m :: 32 word)"
  by (rule bit_word_eqI) (auto simp: bit_simps)

lemma chain_step_return:
  "BitsAvailableForRead c = 0 \<Longrightarrow> SendMessageList_UnmarshalTLB actions c = Inr actions"
  by (simp add: SendMessageList_UnmarshalTLB.simps [of actions c] chain_step_def)

lemma chain_step_other:
  "BitsAvailableForRead c \<noteq> 0 \<Longrightarrow> BitsAvailableForRead c \<noteq> 40 \<Longrightarrow>
   SendMessageList_UnmarshalTLB actions c = Inl (ErrUnexpectedBits (BitsAvailableForRead c))"
  by (simp add: SendMessageList_UnmarshalTLB.simps [of actions c] chain_step_def)

lemma chain_step_no_ref:
  "BitsAvailableForRead c = 40 \<Longrightarrow> length (refs c) \<le> refCursor c \<Longrightarrow>
   SendMessageList_UnmarshalTLB actions c = Inl ErrNotEnoughRefs"
  by (simp add: SendMessageList_UnmarshalTLB.simps [of actions c] chain_step_def NextRef_def)

lemma chain_step_bad_tag:
  "BitsAvailableForRead c = 40 \<Longrightarrow> refCursor c < length (refs c) \<Longrightarrow>
   ucast (uint_of_bits (take 32 (drop (rdCursor c) (bits c)))) \<noteq> SendMessageAction_Magic \<Longrightarrow>
   SendMessageList_UnmarshalTLB actions c = Inl ErrMagicMismatch"
  by (simp add: SendMessageList_UnmarshalTLB.simps [of actions c] chain_step_def NextRef_def
      Unmarshal_SendMessageAction_def ReadUint_def ReadBits_def BitsAvailableForRead_def)

lemma chain_step_action:
  assumes av: "BitsAvailableForRead c = 40"
    and rf: "refCursor c + 1 < length (refs c)"
    and tag: "ucast (uint_of_bits (take 32 (drop (rdCursor c) (bits c)))) = SendMessageAction_Magic"
  shows "SendMessageList_UnmarshalTLB actions c =
     SendMessageList_UnmarshalTLB
       (actions @ [\<lparr>Magic = SendMessageAction_Magic,
                    ActionMode = ucast (uint_of_bits (take 8 (drop (rdCursor c + 32) (bits c)))),
                    Msg = refs c ! (refCursor c + 1)\<rparr>])
       (open_cell (refs c ! refCursor c))"
proof -
  let ?c1 = "c\<lparr>refCursor := refCursor c + 1\<rparr>"
  let ?c2 = "?c1\<lparr>rdCursor := rdCursor c + 32\<rparr>"
  let ?c3 = "?c2\<lparr>rdCursor := rdCursor c + 32 + 8\<rparr>"
  let ?action = "\<lparr>Magic = SendMessageAction_Magic,
      ActionMode = ucast (uint_of_bits (take 8 (drop (rdCursor c + 32) (bits c)))),
      Msg = refs c ! (refCursor c + 1)\<rparr>"
  from av have len: "length (bits c) = rdCursor c + 40"
    by (simp add: BitsAvailableForRead_def)
  have nr: "NextRef c = Inr (refs c ! refCursor c, ?c1)"
    using rf by (simp add: NextRef_def)
  have r32: "ReadUint ?c1 32 = Inr (uint_of_bits (take 32 (drop (rdCursor c) (bits c))), ?c2)"
    using len by (simp add: ReadUint_def ReadBits_def BitsAvailableForRead_def)
  have r8: "ReadUint ?c2 8 = Inr (uint_of_bits (take 8 (drop (rdCursor c + 32) (bits c))), ?c3)"
    using len by (simp add: ReadUint_def ReadBits_def BitsAvailableForRead_def)
  have nr2: "NextRef ?c3 = Inr (refs c ! (refCursor c + 1), ?c3\<lparr>refCursor := refCursor c + 1 + 1\<rparr>)"
    using rf by (simp add: NextRef_def)
  have "Unmarshal_SendMessageAction ?c1 = Inr (?action, ?c3\<lparr>refCursor := refCursor c + 1 + 1\<rparr>)"
    unfolding Unmarshal_SendMessageAction_def
    by (simp only: r32 r8 nr2 tag sum.case prod.case) simp
  then have "chain_step actions c = Inr (actions @ [?action], refs c ! refCursor c)"
    using av by (simp add: chain_step_def nr)
  then show ?thesis
    by (simp add: SendMessageList_UnmarshalTLB.simps [of actions c])
qed

lemma chain_cells_decode:
  "\<forall>a \<in> set as. Magic a = SendMessageAction_Magic \<Longrightarrow>
   SendMessageList_UnmarshalTLB acc (open_cell (chain_cells as)) = Inr (acc @ as)"
proof (induction as arbitrary: acc)
  case Nil
  then show ?case
    by (simp add: chain_step_return open_cell_def BitsAvailableForRead_def)
next
  case (Cons a as)
  let ?c = "open_cell (chain_cells (a # as))"
  have av: "BitsAvailableForRead ?c = 40"
    by (simp add: open_cell_def BitsAvailableForRead_def length_action_bits)
  have rf: "refCursor ?c + 1 < length (refs ?c)"
    by (simp add: open_cell_def)
  have tag: "ucast (uint_of_bits (take 32 (drop (rdCursor ?c) (bits ?c)))) = SendMessageAction_Magic"
    by (simp add: open_cell_def action_bits_def length_bits_of_uint uint_of_bits_of_uint
        ucast_take_bit32)
  have mode: "ucast (uint_of_bits (take 8 (drop (rdCursor ?c + 32) (bits ?c)))) = ActionMode a"
    by (simp add: open_cell_def action_bits_def length_bits_of_uint uint_of_bits_of_uint
        ucast_take_bit8)
  have a: "\<lparr>Magic = SendMessageAction_Magic, ActionMode = ActionMode a, Msg = Msg a\<rparr> = a"
    using Cons.prems by simp
  have "SendMessageList_UnmarshalTLB acc ?c
      = SendMessageList_UnmarshalTLB (acc @ [a]) (open_cell (chain_cells as))"
    by (simp only: chain_step_action [OF av rf tag] mode)
       (simp add: open_cell_def a)
  also have "\<dots> = Inr ((acc @ [a]) @ as)"
    using Cons.prems by (intro Cons.IH) simp
  finally show ?case by simp
qed

lemma uint_of_bits_zero: "uint_of_bits (replicate n False) = 0"
proof -
  have "horner_sum of_bool 2 (replicate n False) = (0 :: 64 word)"
    by (induction n) simp_all
  then show ?thesis
    by (simp add: uint_of_bits_def)
qed

text \<open>
  Claim C3. \<^verbatim>\<open>SendMessageList.UnmarshalTLB\<close> on a cell with no bits left returns the
  list accumulated so far. On a cell with exactly 40 bits left and two references left,
  whose first 32 bits are the tag \<^verbatim>\<open>0x0ec3c86d\<close>, it appends the action made of the
  next 8 bits as mode and the second of the references as message, and goes on with the
  first of the references, read from its start; a wrong tag or no reference left is an
  error. With any other number of bits left it fails with "unexpected bits available".
  A chain built from a list of actions decodes to that list, in order.
\<close>

theorem action_chain_decoding:
  "(BitsAvailableForRead c = 0 \<longrightarrow> SendMessageList_UnmarshalTLB actions c = Inr actions) \<and>
   (BitsAvailableForRead c = 40 \<and> refCursor c + 1 < length (refs c) \<and>
    ucast (uint_of_bits (take 32 (drop (rdCursor c) (bits c)))) = SendMessageAction_Magic \<longrightarrow>
      SendMessageList_UnmarshalTLB actions c =
        SendMessageList_UnmarshalTLB
          (actions @ [\<lparr>Magic = SendMessageAction_Magic,
                       ActionMode = ucast (uint_of_bits (take 8 (drop (rdCursor c + 32) (bits c)))),
                       Msg = refs c ! (refCursor c + 1)\<rparr>])
          (open_cell (refs c ! refCursor c))) \<and>
   (BitsAvailableForRead c = 40 \<and> refCursor c < length (refs c) \<and>
    ucast (uint_of_bits (take 32 (drop (rdCursor c) (bits c)))) \<noteq> SendMessageAction_Magic \<longrightarrow>
      SendMessageList_UnmarshalTLB actions c = Inl ErrMagicMismatch) \<and>
   (BitsAvailableForRead c = 40 \<and> length (refs c) \<le> refCursor c \<longrightarrow>
      SendMessageList_UnmarshalTLB actions c = Inl ErrNotEnoughRefs) \<and>
   (BitsAvailableForRead c \<noteq> 0 \<and> BitsAvailableForRead c \<noteq> 40 \<longrightarrow>
      SendMessageList_UnmarshalTLB actions c = Inl (ErrUnexpectedBits (BitsAvailableForRead c)) \<and>
      kind_of (ErrUnexpectedBits (BitsAvailableForRead c)) = StructuralDecodeError) \<and>
   ((\<forall>a \<in> set as. Magic a = SendMessageAction_Magic) \<longrightarrow>
      SendMessageList_UnmarshalTLB [] (open_cell (chain_cells as)) = Inr as)"
  using chain_step_return [of c actions] chain_step_action [of c actions]
    chain_step_bad_tag [of c actions] chain_step_no_ref [of c actions]
    chain_step_other [of c actions] chain_cells_decode [of as "[]"]
  by simp

theorem action_chain_decoding_witness:
  "BitsAvailableForRead NewCell = 0 \<and>
   SendMessageList_UnmarshalTLB [] NewCell = Inr [] \<and>
   BitsAvailableForRead (open_cell (Cell (action_bits 3) [Cell [] [], Cell [True] []])) = 40 \<and>
   SendMessageList_UnmarshalTLB [] (open_cell (Cell (action_bits 3) [Cell [] [], Cell [True] []]))
     = Inr [\<lparr>Magic = SendMessageAction_Magic, ActionMode = 3, Msg = Cell [True] []\<rparr>] \<and>
   SendMessageList_UnmarshalTLB [] (open_cell (Cell (replicate 40 False) [Cell [] [], Cell [True] []]))
     = Inl ErrMagicMismatch \<and>
   SendMessageList_UnmarshalTLB [] (open_cell (Cell (replicate 40 False) []))
     = Inl ErrNotEnoughRefs \<and>
   SendMessageList_UnmarshalTLB [] (open_cell (Cell (replicate 41 False) [Cell [] [], Cell [True] []]))
     = Inl (ErrUnexpectedBits 41) \<and>
   SendMessageList_UnmarshalTLB []
     (open_cell (chain_cells
        [\<lparr>Magic = SendMessageAction_Magic, ActionMode = 1, Msg = Cell [True] []\<rparr>,
         \<lparr>Magic = SendMessageAction_Magic, ActionMode = 2, Msg = Cell [False] []\<rparr>,
         \<lparr>Magic = SendMessageAction_Magic, ActionMode = 3, Msg = Cell [] []\<rparr>]))
     = Inr [\<lparr>Magic = SendMessageAction_Magic, ActionMode = 1, Msg = Cell [True] []\<rparr>,
            \<lparr>Magic = SendMessageAction_Magic, ActionMode = 2, Msg = Cell [False] []\<rparr>,
            \<lparr>Magic = SendMessageAction_Magic, ActionMode = 3, Msg = Cell [] []\<rparr>]"
proof -
  let ?good = "open_cell (Cell (action_bits 3) [Cell [] [], Cell [True] []])"
  let ?bad = "open_cell (Cell (replicate 40 False) [Cell [] [], Cell [True] []])"
  let ?noref = "open_cell (Cell (replicate 40 False) [])"
  let ?long = "open_cell (Cell (replicate 41 False) [Cell [] [], Cell [True] []])"
  let ?as = "[\<lparr>Magic = SendMessageAction_Magic, ActionMode = 1, Msg = Cell [True] []\<rparr>,
              \<lparr>Magic = SendMessageAction_Magic, ActionMode = 2, Msg = Cell [False] []\<rparr>,
              \<lparr>Magic = SendMessageAction_Magic, ActionMode = 3, Msg = Cell [] []\<rparr>]"
  have e0: "BitsAvailableForRead NewCell = 0"
    by (simp add: BitsAvailableForRead_def NewCell_def)
  have g: "BitsAvailableForRead ?good = 40" "refCursor ?good + 1 < length (refs ?good)"
    "ucast (uint_of_bits (take 32 (drop (rdCursor ?good) (bits ?good)))) = SendMessageAction_Magic"
    "ucast (uint_of_bits (take 8 (drop (rdCursor ?good + 32) (bits ?good)))) = (3 :: 8 word)"
    by (simp_all add: BitsAvailableForRead_def open_cell_def length_action_bits action_bits_def
        length_bits_of_uint uint_of_bits_of_uint ucast_take_bit32 ucast_take_bit8)
  have b: "BitsAvailableForRead ?bad = 40" "refCursor ?bad < length (refs ?bad)"
    "ucast (uint_of_bits (take 32 (drop (rdCursor ?bad) (bits ?bad)))) \<noteq> SendMessageAction_Magic"
    by (simp_all add: BitsAvailableForRead_def open_cell_def uint_of_bits_zero
        SendMessageAction_Magic_def)
  have n: "BitsAvailableForRead ?noref = 40" "length (refs ?noref) \<le> refCursor ?noref"
    by (simp_all add: BitsAvailableForRead_def open_cell_def)
  have l: "BitsAvailableForRead ?long = 41"
    by (simp add: BitsAvailableForRead_def open_cell_def)
  have m: "\<forall>a \<in> set ?as. Magic a = SendMessageAction_Magic"
    by simp
  have t: "BitsAvailableForRead (open_cell (Cell [] [])) = 0"
    by (simp add: BitsAvailableForRead_def open_cell_def)
  note w0 = action_chain_decoding [of NewCell "[]" "[]"]
  note w1 = action_chain_decoding [of ?good "[]" "[]"]
  note w1' = action_chain_decoding [of "open_cell (Cell [] [])"
      "[\<lparr>Magic = SendMessageAction_Magic, ActionMode = 3, Msg = Cell [True] []\<rparr>]" "[]"]
  note w2 = action_chain_decoding [of ?bad "[]" "[]"]
  note w3 = action_chain_decoding [of ?noref "[]" "[]"]
  note w4 = action_chain_decoding [of ?long "[]" "[]"]
  note w5 = action_chain_decoding [of NewCell "[]" ?as]
  have r0: "SendMessageList_UnmarshalTLB [] NewCell = Inr []"
    using w0 e0 by blast
  have r1: "SendMessageList_UnmarshalTLB [] ?good
      = Inr [\<lparr>Magic = SendMessageAction_Magic, ActionMode = 3, Msg = Cell [True] []\<rparr>]"
  proof -
    from w1 g(1-3) have "SendMessageList_UnmarshalTLB [] ?good =
        SendMessageList_UnmarshalTLB
          ([] @ [\<lparr>Magic = SendMessageAction_Magic,
                 ActionMode = ucast (uint_of_bits (take 8 (drop (rdCursor ?good + 32) (bits ?good)))),
                 Msg = refs ?good ! (refCursor ?good + 1)\<rparr>])
          (open_cell (refs ?good ! refCursor ?good))"
      by blast
    also have "\<dots> = SendMessageList_UnmarshalTLB
        [\<lparr>Magic = SendMessageAction_Magic, ActionMode = 3, Msg = Cell [True] []\<rparr>]
        (open_cell (Cell [] []))"
      by (simp only: g(4)) (simp add: open_cell_def)
    also have "\<dots> = Inr [\<lparr>Magic = SendMessageAction_Magic, ActionMode = 3, Msg = Cell [True] []\<rparr>]"
      using w1' t by blast
    finally show ?thesis .
  qed
  have r2: "SendMessageList_UnmarshalTLB [] ?bad = Inl ErrMagicMismatch"
    using w2 b by blast
  have r3: "SendMessageList_UnmarshalTLB [] ?noref = Inl ErrNotEnoughRefs"
    using w3 n by blast
  have r4: "SendMessageList_UnmarshalTLB [] ?long = Inl (ErrUnexpectedBits 41)"
    using w4 l by simp
  have r5: "SendMessageList_UnmarshalTLB [] (open_cell (chain_cells ?as)) = Inr ?as"
    using w5 m by blast
  from e0 r0 g(1) r1 r2 r3 r4 r5 show ?thesis
    by blast
qed

subsection \<open>Termination of the action chain\<close>

lemma fold_max_ge: "(a::nat) \<le> fold max xs a"
  by (induction xs arbitrary: a) (auto intro: order_trans [OF max.cobounded2])

lemma fold_max_mem: "x \<in> set xs \<Longrightarrow> (x::nat) \<le> fold max xs a"
proof (induction xs arbitrary: a)
  case Nil
  then show ?case by simp
next
  case (Cons y ys)
  show ?case
  proof (cases "x = y")
    case True
    have "x \<le> max y a" using True by simp
    also have "\<dots> \<le> fold max ys (max y a)" by (rule fold_max_ge)
    finally show ?thesis by simp
  next
    case False
    with Cons.prems have "x \<in> set ys" by simp
    then show ?thesis by (simp add: Cons.IH)
  qed
qed

lemma height_child: "r \<in> set rs \<Longrightarrow> height r < height (Cell bs rs)"
proof -
  assume "r \<in> set rs"
  then have "Suc (height r) \<in> set (map (\<lambda>r. Suc (height r)) rs)"
    by (simp add: image_iff) blast
  then have "Suc (height r) \<le> fold max (map (\<lambda>r. Suc (height r)) rs) 0"
    by (rule fold_max_mem)
  then show ?thesis by simp
qed

lemma height_reopen: "height (content (open_cell r)) = height r"
  by (cases r) (simp_all add: content_def open_cell_def)

lemma chain_step_refs:
  "chain_step actions c = Inr (actions', next) \<Longrightarrow>
   next \<in> set (refs c) \<and> length actions' = Suc (length actions)"
  by (auto simp: chain_step_def NextRef_def split: if_splits sum.splits)

lemma chain_step_height:
  "chain_step actions c = Inr (actions', next) \<Longrightarrow> height next < height (content c)"
proof -
  assume "chain_step actions c = Inr (actions', next)"
  then have "next \<in> set (refs c)"
    by (simp add: chain_step_refs)
  then have "height next < height (Cell (bits c) (refs c))"
    by (rule height_child)
  then show ?thesis
    by (simp only: content_def)
qed

lemma chain_fuel_enough:
  "height (content c) < n \<Longrightarrow>
   chain_fuel n actions c = Some (SendMessageList_UnmarshalTLB actions c)"
proof (induction n arbitrary: actions c)
  case 0
  then show ?case by simp
next
  case (Suc n)
  show ?case
  proof (cases "chain_step actions c")
    case (Inl result)
    then show ?thesis
      by (simp add: SendMessageList_UnmarshalTLB.simps [of actions c])
  next
    case (Inr cont)
    obtain actions' "next" where cont: "cont = (actions', next)"
      by (cases cont)
    from Inr cont have "height next < height (content c)"
      by (simp add: chain_step_height)
    with Suc.prems have "height (content (open_cell next)) < n"
      by (simp add: height_reopen)
    then have "chain_fuel n actions' (open_cell next)
        = Some (SendMessageList_UnmarshalTLB actions' (open_cell next))"
      by (rule Suc.IH)
    with Inr cont show ?thesis
      by (simp add: SendMessageList_UnmarshalTLB.simps [of actions c])
  qed
qed

lemma chain_length_bound:
  "SendMessageList_UnmarshalTLB actions c = Inr res \<Longrightarrow>
   length res \<le> length actions + height (content c)"
proof (induction actions c rule: SendMessageList_UnmarshalTLB.induct)
  case (1 actions c)
  show ?case
  proof (cases "chain_step actions c")
    case (Inl result)
    with "1.prems" have "result = Inr res"
      by (simp add: SendMessageList_UnmarshalTLB.simps [of actions c])
    with Inl have "res = actions"
      by (auto simp: chain_step_def split: if_splits sum.splits)
    then show ?thesis by simp
  next
    case (Inr cont)
    obtain actions' "next" where cont: "cont = (actions', next)"
      by (cases cont)
    from "1.prems" Inr cont
    have "SendMessageList_UnmarshalTLB actions' (open_cell next) = Inr res"
      by (simp add: SendMessageList_UnmarshalTLB.simps [of actions c])
    with "1.IH" [OF Inr cont [symmetric]]
    have "length res \<le> length actions' + height (content (open_cell next))"
      by simp
    moreover from Inr cont have "height next < height (content c)"
      by (simp add: chain_step_height)
    moreover from Inr cont have "length actions' = Suc (length actions)"
      by (simp add: chain_step_refs)
    ultimately show ?thesis
      by (simp add: height_reopen)
  qed
qed

text \<open>
  Claim C10. Every turn of the loop of \<^verbatim>\<open>SendMessageList.UnmarshalTLB\<close> that does not
  return goes on with a child of the current cell, which is less deep. So the loop
  returns within one turn more than the depth of the cell tree, and a decoded list has
  at most as many actions as the tree is deep.
\<close>

theorem action_chain_terminates:
  "(chain_step actions c = Inr (actions', next) \<longrightarrow>
      next \<in> set (refs c) \<and> height next < height (content c)) \<and>
   chain_fuel (Suc (height (content c))) actions c
     = Some (SendMessageList_UnmarshalTLB actions c) \<and>
   (SendMessageList_UnmarshalTLB [] c = Inr res \<longrightarrow> length res \<le> height (content c))"
  using chain_step_refs [of actions c actions' "next"] chain_step_height [of actions c actions' "next"]
    chain_fuel_enough [of c "Suc (height (content c))" actions] chain_length_bound [of "[]" c res]
  by simp

theorem action_chain_terminates_witness:
  "chain_step [] (open_cell (Cell (action_bits 3) [Cell [] [], Cell [True] []]))
     = Inr ([\<lparr>Magic = SendMessageAction_Magic, ActionMode = 3, Msg = Cell [True] []\<rparr>], Cell [] []) \<and>
   Cell [] [] \<in> set (refs (open_cell (Cell (action_bits 3) [Cell [] [], Cell [True] []]))) \<and>
   height (Cell [] []) < height (content (open_cell (Cell (action_bits 3) [Cell [] [], Cell [True] []]))) \<and>
   SendMessageList_UnmarshalTLB [] (open_cell (Cell (action_bits 3) [Cell [] [], Cell [True] []]))
     = Inr [\<lparr>Magic = SendMessageAction_Magic, ActionMode = 3, Msg = Cell [True] []\<rparr>] \<and>
   length [\<lparr>Magic = SendMessageAction_Magic, ActionMode = 3, Msg = Cell [True] []\<rparr>]
     \<le> height (content (open_cell (Cell (action_bits 3) [Cell [] [], Cell [True] []])))"
proof -
  let ?c = "open_cell (Cell (action_bits 3) [Cell [] [], Cell [True] []])"
  let ?a = "\<lparr>Magic = SendMessageAction_Magic, ActionMode = 3, Msg = Cell [True] []\<rparr>"
  have a: "chain_cells [?a] = Cell (action_bits 3) [Cell [] [], Cell [True] []]"
    by simp
  have dec: "SendMessageList_UnmarshalTLB [] ?c = Inr [?a]"
    using chain_cells_decode [of "[?a]" "[]"] by (simp only: a) simp
  have step: "chain_step [] ?c = Inr ([?a], Cell [] [])"
    by (simp add: chain_step_def BitsAvailableForRead_def open_cell_def length_action_bits
        NextRef_def Unmarshal_SendMessageAction_def ReadUint_def ReadBits_def action_bits_def
        length_bits_of_uint uint_of_bits_of_uint ucast_take_bit32 ucast_take_bit8)
  from action_chain_terminates [of "[]" ?c "[?a]" "Cell [] []" "[?a]"] step dec
  show ?thesis
    by blast
qed

subsection \<open>The dictionary codec\<close>

lemma sorted_keys: "n \<le> 65536 \<Longrightarrow> sorted (map (of_nat :: nat \<Rightarrow> 16 word) [0..<n])"
proof -
  assume n: "n \<le> 65536"
  have le: "(of_nat x :: 16 word) \<le> of_nat y"
    if "x \<in> set [0..<n]" "y \<in> set [0..<n]" "x \<le> y" for x y
  proof -
    from that n have "x < 2 ^ 16" "y < 2 ^ 16" by simp_all
    then have "take_bit 16 x = x" "take_bit 16 y = y"
      by (simp_all add: take_bit_nat_eq_self)
    with that(3) show ?thesis
      by (simp add: word_of_nat_less_eq_iff)
  qed
  have "sorted_wrt (\<le>) [0..<n]"
    using sorted_upt [of 0 n] by simp
  then have "sorted_wrt (\<lambda>x y. (of_nat x :: 16 word) \<le> of_nat y) [0..<n]"
    by (rule sorted_wrt_mono_rel [rotated]) (rule le)
  then show ?thesis
    by (simp only: sorted_map)
qed

lemma Items_zip_keys:
  "length vs = n \<Longrightarrow> n \<le> 65536 \<Longrightarrow>
   Items (NewHashmap (map of_nat [0..<n]) vs) = zip (map of_nat [0..<n]) vs"
  unfolding Items_def NewHashmap_def
  by (rule sort_key_id_if_sorted) (simp add: sorted_keys)

lemma build_entries_ok:
  "build_entries i p keys values
     = Inr (keys @ map of_nat [i..<i + length p], values @ map value_cell p)"
proof (induction p arbitrary: i keys "values")
  case Nil
  then show ?case by simp
next
  case (Cons msg p)
  have w: "WriteUint NewCell (ucast (Mode msg)) 8
      = Inr (NewCell\<lparr>bits := bits_of_uint (ucast (Mode msg)) 8\<rparr>)"
    by (simp add: WriteUint_def WriteBitString_def NewCell_def CellBits_def length_bits_of_uint)
  have a: "AddRef (NewCell\<lparr>bits := bits_of_uint (ucast (Mode msg)) 8\<rparr>) (Message msg)
      = Inr (NewCell\<lparr>bits := bits_of_uint (ucast (Mode msg)) 8, refs := [Message msg]\<rparr>)"
    by (simp add: AddRef_def NewCell_def CellRefs_def)
  have c: "content (NewCell\<lparr>bits := bits_of_uint (ucast (Mode msg)) 8, refs := [Message msg]\<rparr>)
      = value_cell msg"
    by (simp add: content_def value_cell_def)
  have u: "[i..<i + length (msg # p)] = i # [i + 1..<i + 1 + length p]"
  proof -
    have "i < i + length (msg # p)" by simp
    then have "[i..<i + length (msg # p)] = i # [Suc i..<i + length (msg # p)]"
      by (rule upt_conv_Cons)
    then show ?thesis by simp
  qed
  show ?case
    by (simp only: build_entries.simps w a c sum.case Cons.IH u) simp
qed

lemma entry_message_value_cell: "entry_message (k, value_cell m) = m"
  by (simp add: entry_message_def value_cell_def length_bits_of_uint uint_roundtrip8)

lemma read_items_ok:
  "\<forall>item \<in> set its. 8 \<le> length (cbits (snd item)) \<and> crefs (snd item) \<noteq> [] \<Longrightarrow>
   read_items its acc = Inr (acc @ map entry_message its)"
proof (induction its arbitrary: acc)
  case Nil
  then show ?case by simp
next
  case (Cons item its)
  let ?c1 = "(open_cell (snd item))\<lparr>rdCursor := 8\<rparr>"
  from Cons.prems have ok: "8 \<le> length (cbits (snd item))" "crefs (snd item) \<noteq> []"
    by simp_all
  have r: "ReadUint (open_cell (snd item)) 8 = Inr (uint_of_bits (take 8 (cbits (snd item))), ?c1)"
    using ok by (simp add: ReadUint_def ReadBits_def BitsAvailableForRead_def open_cell_def)
  have n: "NextRef ?c1 = Inr (hd (crefs (snd item)), ?c1\<lparr>refCursor := 1\<rparr>)"
    using ok by (simp add: NextRef_def open_cell_def hd_conv_nth)
  have "read_items its (acc @ [entry_message item]) = Inr ((acc @ [entry_message item]) @ map entry_message its)"
    using Cons.prems by (intro Cons.IH) simp
  then show ?case
    by (simp add: r n entry_message_def)
qed

lemma read_items_result:
  "read_items its acc = Inr q \<Longrightarrow> q = acc @ map entry_message its"
proof (induction its arbitrary: acc)
  case Nil
  then show ?case by simp
next
  case (Cons item its)
  from Cons.prems obtain mode cell1 where r: "ReadUint (open_cell (snd item)) 8 = Inr (mode, cell1)"
    by (auto split: sum.splits)
  from Cons.prems r obtain msg cell2 where n: "NextRef cell1 = Inr (msg, cell2)"
    by (auto split: sum.splits)
  from r have mode: "mode = uint_of_bits (take 8 (cbits (snd item)))"
    and cell1: "cell1 = (open_cell (snd item))\<lparr>rdCursor := 8\<rparr>"
    by (auto simp: ReadUint_def ReadBits_def open_cell_def split: if_splits)
  from n cell1 have msg: "msg = hd (crefs (snd item))"
    by (auto simp: NextRef_def open_cell_def hd_conv_nth split: if_splits)
  from Cons.prems r n have "read_items its (acc @ [\<lparr>Message = msg, Mode = ucast mode\<rparr>]) = Inr q"
    by simp
  then have "q = (acc @ [\<lparr>Message = msg, Mode = ucast mode\<rparr>]) @ map entry_message its"
    by (rule Cons.IH)
  then show ?case
    by (simp add: mode msg entry_message_def)
qed

text \<open>
  Claim C2. For a list of at most 254 raw messages, \<^verbatim>\<open>PayloadHighload.MarshalTLB\<close> into
  a fresh cell succeeds: it writes the marker bit and one reference to the dictionary that
  maps the position of each entry, as a 16-bit key, to its value cell.
  \<^verbatim>\<open>PayloadHighload.UnmarshalTLB\<close> of that cell succeeds and gives the same list back, in
  the order of the keys, every mode and message cell in its place.
\<close>

theorem dictionary_codec_roundtrip:
  "length p \<le> 254 \<Longrightarrow>
   PayloadHighload_MarshalTLB p NewCell
     = (None, \<lparr>bits = [True],
               refs = [Dict (zip (map of_nat [0..<length p]) (map value_cell p))],
               rdCursor = 0, refCursor = 0\<rparr>) \<and>
   PayloadHighload_UnmarshalTLB q (snd (PayloadHighload_MarshalTLB p NewCell))
     = (None, p, \<lparr>bits = [True],
                  refs = [Dict (zip (map of_nat [0..<length p]) (map value_cell p))],
                  rdCursor = 1, refCursor = 1\<rparr>)"
proof -
  assume len: "length p \<le> 254"
  let ?m = "zip (map of_nat [0..<length p]) (map value_cell p) :: Hashmap"
  let ?c = "\<lparr>bits = [True], refs = [Dict ?m], rdCursor = 0, refCursor = 0\<rparr>"
  have b: "build_entries 0 p [] [] = Inr (map of_nat [0..<length p], map value_cell p)"
    using build_entries_ok [of 0 p "[]" "[]"] by simp
  have m: "PayloadHighload_MarshalTLB p NewCell = (None, ?c)"
    using len
    by (simp add: PayloadHighload_MarshalTLB_def b NewHashmap_def Marshal_Hashmap_def
        WriteBit_def WriteBitString_def AddRef_def NewCell_def CellBits_def CellRefs_def)
  have h: "Unmarshal_HashmapE ?c = (Inr ?m, ?c\<lparr>rdCursor := 1, refCursor := 1\<rparr>)"
    by (simp add: Unmarshal_HashmapE_def ReadBits_def BitsAvailableForRead_def NextRef_def)
  have i: "Items ?m = ?m"
    using Items_zip_keys [of "map value_cell p" "length p"] len
    by (simp add: NewHashmap_def)
  have e: "map entry_message ?m = p"
    by (induction p rule: rev_induct) (simp_all add: entry_message_value_cell)
  have "read_items ?m [] = Inr ([] @ map entry_message ?m)"
    by (rule read_items_ok) (auto simp: value_cell_def length_bits_of_uint dest!: set_zip_rightD)
  then have r: "read_items (Items ?m) [] = Inr p"
    by (simp only: i e) simp
  have "PayloadHighload_UnmarshalTLB q ?c = (None, p, ?c\<lparr>rdCursor := 1, refCursor := 1\<rparr>)"
    by (simp only: PayloadHighload_UnmarshalTLB_def h r prod.case sum.case)
  then show ?thesis
    by (simp add: m)
qed

theorem dictionary_codec_roundtrip_witness:
  "length [\<lparr>Message = Cell [True] [], Mode = 3\<rparr>, \<lparr>Message = Cell [] [Cell [] []], Mode = 128\<rparr>] \<le> 254 \<and>
   fst (snd (PayloadHighload_UnmarshalTLB []
     (snd (PayloadHighload_MarshalTLB
        [\<lparr>Message = Cell [True] [], Mode = 3\<rparr>, \<lparr>Message = Cell [] [Cell [] []], Mode = 128\<rparr>] NewCell))))
    = [\<lparr>Message = Cell [True] [], Mode = 3\<rparr>, \<lparr>Message = Cell [] [Cell [] []], Mode = 128\<rparr>]"
proof -
  have len: "length [\<lparr>Message = Cell [True] [], Mode = 3\<rparr>,
      \<lparr>Message = Cell [] [Cell [] []], Mode = (128 :: 8 word)\<rparr>] \<le> 254"
    by simp
  from dictionary_codec_roundtrip [OF len, THEN conjunct2, of "[]"] len show ?thesis
    by (simp only: fst_conv snd_conv)
qed

text \<open>
  Claim C9. For a payload whose dictionary holds any entries at all, whatever their keys,
  a successful \<^verbatim>\<open>PayloadHighload.UnmarshalTLB\<close> returns one raw message per entry of the
  dictionary, in ascending order of the keys: the entries are those of the dictionary,
  reordered and nothing else, and the keys take no part in the decoding of an entry. It
  succeeds whenever every value cell has 8 bits and a reference. In the example the keys
  are 700, 5 and 2.
\<close>

theorem dictionary_decode_any_keys:
  "Unmarshal_HashmapE c = (Inr m, c1) \<Longrightarrow>
   (PayloadHighload_UnmarshalTLB p c = (None, q, c') \<longrightarrow> q = map entry_message (Items m)) \<and>
   ((\<forall>item \<in> set m. 8 \<le> length (cbits (snd item)) \<and> crefs (snd item) \<noteq> []) \<longrightarrow>
      PayloadHighload_UnmarshalTLB p c = (None, map entry_message (Items m), c1)) \<and>
   mset (Items m) = mset m \<and> sorted (map fst (Items m)) \<and>
   length (map entry_message (Items m)) = length m"
proof -
  assume h: "Unmarshal_HashmapE c = (Inr m, c1)"
  have 1: "q = map entry_message (Items m)" if "PayloadHighload_UnmarshalTLB p c = (None, q, c')"
  proof -
    from that h have "read_items (Items m) [] = Inr q"
      by (auto simp: PayloadHighload_UnmarshalTLB_def split: sum.splits)
    then show ?thesis
      by (auto dest: read_items_result)
  qed
  have 2: "PayloadHighload_UnmarshalTLB p c = (None, map entry_message (Items m), c1)"
    if "\<forall>item \<in> set m. 8 \<le> length (cbits (snd item)) \<and> crefs (snd item) \<noteq> []"
  proof -
    from that have "\<forall>item \<in> set (Items m). 8 \<le> length (cbits (snd item)) \<and> crefs (snd item) \<noteq> []"
      by (simp add: Items_def)
    then have "read_items (Items m) [] = Inr ([] @ map entry_message (Items m))"
      by (rule read_items_ok)
    then show ?thesis
      by (simp add: PayloadHighload_UnmarshalTLB_def h)
  qed
  have 3: "mset (Items m) = mset m" "sorted (map fst (Items m))"
    "length (map entry_message (Items m)) = length m"
    by (simp_all add: Items_def)
  from 1 2 3 show ?thesis by blast
qed

theorem dictionary_decode_any_keys_witness:
  "Unmarshal_HashmapE
     \<lparr>bits = [True],
      refs = [Dict [(700, value_cell \<lparr>Message = Cell [True] [], Mode = 1\<rparr>),
                    (5, value_cell \<lparr>Message = Cell [False] [], Mode = 2\<rparr>),
                    (2, value_cell \<lparr>Message = Cell [] [], Mode = 3\<rparr>)]],
      rdCursor = 0, refCursor = 0\<rparr>
     = (Inr [(700, value_cell \<lparr>Message = Cell [True] [], Mode = 1\<rparr>),
             (5, value_cell \<lparr>Message = Cell [False] [], Mode = 2\<rparr>),
             (2, value_cell \<lparr>Message = Cell [] [], Mode = 3\<rparr>)],
        \<lparr>bits = [True],
         refs = [Dict [(700, value_cell \<lparr>Message = Cell [True] [], Mode = 1\<rparr>),
                       (5, value_cell \<lparr>Message = Cell [False] [], Mode = 2\<rparr>),
                       (2, value_cell \<lparr>Message = Cell [] [], Mode = 3\<rparr>)]],
         rdCursor = 1, refCursor = 1\<rparr>) \<and>
   fst (snd (PayloadHighload_UnmarshalTLB []
     \<lparr>bits = [True],
      refs = [Dict [(700, value_cell \<lparr>Message = Cell [True] [], Mode = 1\<rparr>),
                    (5, value_cell \<lparr>Message = Cell [False] [], Mode = 2\<rparr>),
                    (2, value_cell \<lparr>Message = Cell [] [], Mode = 3\<rparr>)]],
      rdCursor = 0, refCursor = 0\<rparr>))
     = [\<lparr>Message = Cell [] [], Mode = 3\<rparr>, \<lparr>Message = Cell [False] [], Mode = 2\<rparr>,
        \<lparr>Message = Cell [True] [], Mode = 1\<rparr>]"
proof -
  let ?m = "[(700, value_cell \<lparr>Message = Cell [True] [], Mode = 1\<rparr>),
             (5, value_cell \<lparr>Message = Cell [False] [], Mode = 2\<rparr>),
             (2, value_cell \<lparr>Message = Cell [] [], Mode = 3\<rparr>)] :: Hashmap"
  let ?c = "\<lparr>bits = [True], refs = [Dict ?m], rdCursor = 0, refCursor = 0\<rparr>"
  have h: "Unmarshal_HashmapE ?c = (Inr ?m, ?c\<lparr>rdCursor := 1, refCursor := 1\<rparr>)"
    by (simp add: Unmarshal_HashmapE_def ReadBits_def BitsAvailableForRead_def NextRef_def)
  have ok: "\<forall>item \<in> set ?m. 8 \<le> length (cbits (snd item)) \<and> crefs (snd item) \<noteq> []"
    by (simp add: value_cell_def length_bits_of_uint)
  have i: "Items ?m = [(2, value_cell \<lparr>Message = Cell [] [], Mode = 3\<rparr>),
      (5, value_cell \<lparr>Message = Cell [False] [], Mode = 2\<rparr>),
      (700, value_cell \<lparr>Message = Cell [True] [], Mode = 1\<rparr>)]"
    by (simp add: Items_def)
  from dictionary_decode_any_keys [OF h, of "[]"] ok
  have "PayloadHighload_UnmarshalTLB [] ?c
      = (None, map entry_message (Items ?m), ?c\<lparr>rdCursor := 1, refCursor := 1\<rparr>)"
    by blast
  then have "fst (snd (PayloadHighload_UnmarshalTLB [] ?c)) = map entry_message (Items ?m)"
    by (simp only: fst_conv snd_conv)
  also have "\<dots> = [\<lparr>Message = Cell [] [], Mode = 3\<rparr>, \<lparr>Message = Cell [False] [], Mode = 2\<rparr>,
        \<lparr>Message = Cell [True] [], Mode = 1\<rparr>]"
    by (simp only: i list.map entry_message_value_cell)
  finally have r: "fst (snd (PayloadHighload_UnmarshalTLB [] ?c))
      = [\<lparr>Message = Cell [] [], Mode = 3\<rparr>, \<lparr>Message = Cell [False] [], Mode = 2\<rparr>,
         \<lparr>Message = Cell [True] [], Mode = 1\<rparr>]" .
  from h r show ?thesis
    by (simp only: cellst.simps simp_thms)
qed

end
